theory Spec2Isabelle
  imports Main "HOL-Library.Word"
begin

unbundle bit_operations_syntax

section \<open>Outcomes of calls and the world outside the program\<close>

text \<open>
  A call either returns a value, never returns because it waits for a lock that nobody
  will release, or panics (nil pointer dereference).
\<close>

datatype 'a outcome = Returns 'a | Blocks | Panics

type_synonym byte = "8 word"

text \<open>What \<^verbatim>\<open>os.Stat\<close> can say about a path.\<close>

datatype stat_result = NotExist | StatError | IsFile | IsDir

text \<open>
  What \<^verbatim>\<open>cmd.Wait()\<close> can say: exit status 0, an \<^verbatim>\<open>*exec.ExitError\<close> with its
  code, any other error (for instance "Wait was already called"), or nothing at all when
  the child never exits.
\<close>

datatype wait_result = Exited0 | ExitError int | WaitFailed | NeverExits

section \<open>Configuration model (pkg/config.go)\<close>

record NamespaceConfig =
  UTS :: bool
  PID :: bool
  Mount :: bool
  Net :: bool
  IPC :: bool
  User :: bool

record PortMapping =
  HostPort :: int
  ContainerPort :: int
  Protocol :: string

record NetworkConfig =
  Mode :: string
  BridgeName :: string
  ContainerIP :: string
  GatewayIP :: string
  Subnet :: string
  PortMappings :: "PortMapping list"

record MountConfig =
  Source :: string
  Target :: string
  Type :: string
  Flags :: nat
  Data :: string

text \<open>
  \<^verbatim>\<open>Network *NetworkConfig\<close> is a pointer: \<open>None\<close> is nil. \<^verbatim>\<open>Env\<close> is a Go map; a nil
  map and an empty map range over nothing, both are \<open>Map.empty\<close>.
\<close>

record KittenConfig =
  ID :: string
  RootFS :: string
  Command :: "string list"
  Args :: "string list"
  Hostname :: string
  Namespaces :: NamespaceConfig
  Network :: "NetworkConfig option"
  Mounts :: "MountConfig list"
  WorkingDir :: string
  Env :: "string \<rightharpoonup> string"

text \<open>
  Everything a call reads from outside the program text: the file system, the random
  sources, the outcome of netlink, iptables and process operations, the clock, and the
  IPv6 half of the Go standard library's address parser and printer, which is not
  modelled here. \<open>parseIPv6 w s\<close> is \<^verbatim>\<open>netip\<close>'s result for a text with a colon: the
  sixteen bytes of the address (byte \<open>i\<close> at index \<open>i\<close>) and the zone.
  \<open>rand_source\<close> is the state of \<^verbatim>\<open>math/rand\<close> from which \<^verbatim>\<open>rand.Intn\<close> draws.
\<close>

record world =
  stat :: "string \<Rightarrow> stat_result"
  rand_byte :: "nat \<Rightarrow> byte"
  rand_source :: nat
  parseIPv6 :: "string \<Rightarrow> ((nat \<Rightarrow> byte) \<times> string) option"
  ip6_String :: "byte list \<Rightarrow> string"
  LinkAdd_ok :: bool
  Marshal_ok :: bool
  cmd_Start :: "int option"
  time_Now :: nat
  moveVeth_ok :: bool
  renameVeth_ok :: bool
  linkUp_ok :: bool
  configureHostVeth_ok :: bool
  addrAdd_ok :: bool
  routeAdd_ok :: bool
  addPortForward_ok :: "PortMapping \<Rightarrow> bool"
  Signal_ok :: bool
  cmd_Wait :: wait_result

text \<open>The syscall mount flags used by the default mounts.\<close>

definition MS_RDONLY :: nat where "MS_RDONLY = 1"
definition MS_NOSUID :: nat where "MS_NOSUID = 2"
definition MS_NODEV :: nat where "MS_NODEV = 4"
definition MS_NOEXEC :: nat where "MS_NOEXEC = 8"
definition MS_STRICTATIME :: nat where "MS_STRICTATIME = 16777216"

definition NewDefaultConfig :: KittenConfig where
  "NewDefaultConfig =
     \<lparr> ID = '''', RootFS = '''', Command = [], Args = [], Hostname = ''kitten'',
       Namespaces = \<lparr> UTS = True, PID = True, Mount = True, Net = False, IPC = True,
                      User = False \<rparr>,
       Network = None,
       Mounts =
         [ \<lparr> Source = ''proc'', Target = ''/proc'', Type = ''proc'', Flags = 0, Data = '''' \<rparr>,
           \<lparr> Source = ''sysfs'', Target = ''/sys'', Type = ''sysfs'',
             Flags = MS_NOSUID + MS_NOEXEC + MS_NODEV + MS_RDONLY, Data = '''' \<rparr> ],
       WorkingDir = ''/'', Env = Map.empty \<rparr>"

definition PrepareDefaultMounts :: "MountConfig list" where
  "PrepareDefaultMounts =
     [ \<lparr> Source = ''proc'', Target = ''/proc'', Type = ''proc'', Flags = 0, Data = '''' \<rparr>,
       \<lparr> Source = ''tmpfs'', Target = ''/dev'', Type = ''tmpfs'',
         Flags = MS_NOSUID + MS_STRICTATIME, Data = ''mode=755'' \<rparr>,
       \<lparr> Source = ''devpts'', Target = ''/dev/pts'', Type = ''devpts'',
         Flags = MS_NOSUID + MS_NOEXEC, Data = ''newinstance,ptmxmode=0666,mode=0620'' \<rparr>,
       \<lparr> Source = ''sysfs'', Target = ''/sys'', Type = ''sysfs'',
         Flags = MS_NOSUID + MS_NOEXEC + MS_NODEV + MS_RDONLY, Data = '''' \<rparr>,
       \<lparr> Source = ''tmpfs'', Target = ''/run'', Type = ''tmpfs'',
         Flags = MS_NOSUID + MS_NODEV, Data = ''mode=755'' \<rparr> ]"

text \<open>
  The reasons \<^verbatim>\<open>ValidateConfig\<close> gives, one per \<^verbatim>\<open>fmt.Errorf\<close> of the source, in the
  source's order. The mount error carries the index of the offending mount.
\<close>

datatype config_error =
    RootfsRequired
  | RootfsNotExist
  | RootfsStatError
  | RootfsNotDir
  | CommandRequired
  | NetworkConfigRequired
  | MountTargetRequired nat

fun check_mounts :: "nat \<Rightarrow> MountConfig list \<Rightarrow> config_error option" where
  "check_mounts i [] = None"
| "check_mounts i (mount # rest) =
     (if Target mount = '''' then Some (MountTargetRequired i) else check_mounts (Suc i) rest)"

definition ValidateConfig :: "world \<Rightarrow> KittenConfig \<Rightarrow> config_error option" where
  "ValidateConfig w config =
     (if RootFS config = '''' then Some RootfsRequired
      else case stat w (RootFS config) of
             NotExist \<Rightarrow> Some RootfsNotExist
           | StatError \<Rightarrow> Some RootfsStatError
           | IsFile \<Rightarrow> Some RootfsNotDir
           | IsDir \<Rightarrow>
               if length (Command config) = 0 then Some CommandRequired
               else if Net (Namespaces config) \<and> Network config = None
                 then Some NetworkConfigRequired
               else check_mounts 0 (Mounts config))"

section \<open>Identity helpers (utils)\<close>

definition hextable :: string where
  "hextable = ''0123456789abcdef''"

definition hex_EncodeToString :: "byte list \<Rightarrow> string" where
  "hex_EncodeToString bs =
     concat (map (\<lambda>b. [hextable ! (unat b div 16), hextable ! (unat b mod 16)]) bs)"

text \<open>\<^verbatim>\<open>rand.Read\<close> fills the eight bytes of the buffer from the random source.\<close>

definition GenerateID :: "world \<Rightarrow> string \<Rightarrow> string" where
  "GenerateID w prefix = prefix @ ''_'' @ hex_EncodeToString (map (rand_byte w) [0..<8])"

text \<open>\<^verbatim>\<open>strings.Split(s, sep)\<close> for a one-byte separator: never empty, \<open>[s]\<close> without it.\<close>

fun Split :: "string \<Rightarrow> char \<Rightarrow> string list" where
  "Split [] sep = [[]]"
| "Split (c # cs) sep =
     (if c = sep then [] # Split cs sep
      else case Split cs sep of
             [] \<Rightarrow> [[c]]
           | p # ps \<Rightarrow> (c # p) # ps)"

definition shortID :: "string \<Rightarrow> string" where
  "shortID fullID =
     (let parts = Split fullID (CHR ''_'') in
      if length parts < 2 then fullID
      else if length (parts ! 1) > 6 then take 6 (parts ! 1)
      else parts ! 1)"

section \<open>Host network fabric: veth names\<close>

text \<open>
  The errors of the handle, one per kind of \<^verbatim>\<open>fmt.Errorf\<close> in the source:
  "kitten already started", "failed to create veth pair", "failed to marshal config",
  "rootfs does not exist", "failed to start child process", the failures of the network
  finalisation, "kitten not running", "no process to stop", "failed to send SIGTERM",
  "kitten not started", the two errors \<^verbatim>\<open>cmd.Wait\<close> can hand back, and "invalid config".
\<close>

datatype kerror =
    AlreadyStarted
  | VethCreateFailed
  | MarshalFailed
  | RootFSMissing
  | SpawnFailed
  | NetworkSetupFailed
  | NotRunning
  | NoProcess
  | SignalFailed
  | NotStarted
  | ChildExitError int
  | ChildWaitFailed
  | ConfigInvalid config_error

text \<open>
  \<^verbatim>\<open>netlink.LinkAdd\<close> of a veth pair: the kernel refuses an interface name of
  \<^verbatim>\<open>IFNAMSIZ\<close> bytes or more (15 bytes is the longest name it takes). Whether it accepts
  a pair of shorter names is the host's outcome \<open>LinkAdd_ok\<close>: a name may be in use or
  malformed, the caller may lack the privilege.
\<close>

definition IFNAMSIZ :: nat where
  "IFNAMSIZ = 16"

definition LinkAdd :: "world \<Rightarrow> string \<Rightarrow> string \<Rightarrow> bool" where
  "LinkAdd w name peerName =
     (length name < IFNAMSIZ \<and> length peerName < IFNAMSIZ \<and> LinkAdd_ok w)"

text \<open>
  \<^verbatim>\<open>createVethPair\<close>: the two names are computed first, then \<^verbatim>\<open>netlink.LinkAdd\<close> decides
  between the names and the error.
\<close>

definition createVethPair :: "world \<Rightarrow> string \<Rightarrow> kerror + string \<times> string" where
  "createVethPair w kittenID =
     (let vethHost = ''veth'' @ shortID kittenID;
          vethContainer = ''vethc'' @ shortID kittenID
      in if LinkAdd w vethHost vethContainer then Inr (vethHost, vethContainer)
         else Inl VethCreateFailed)"

section \<open>Container handle (parent side)\<close>

datatype KittenState = StateCreated | StateRunning | StateStopped | StateError

text \<open>
  \<^verbatim>\<open>*exec.Cmd\<close> as far as the handle reads it: the configuration handed to the child
  (the JSON text itself is not modelled) and the process, nil until the command has been
  started.
\<close>

record Cmd =
  child_config :: KittenConfig
  Process :: "int option"

text \<open>
  The handle. \<open>mutex\<close> is \<^verbatim>\<open>sync.Mutex\<close>: \<open>True\<close> while locked. The zero value of
  \<^verbatim>\<open>time.Time\<close> is \<open>0\<close>. The handle's own \<^verbatim>\<open>ID\<close> field is \<open>Kitten.ID\<close>, the
  configuration's is \<open>KittenConfig.ID\<close>.
\<close>

record Kitten =
  ID :: string
  config :: KittenConfig
  state :: KittenState
  pid :: int
  cmd :: "Cmd option"
  exitCode :: int
  vethHost :: string
  vethContainer :: string
  containerIP :: string
  mutex :: bool
  startTime :: nat
  stopTime :: nat

definition NewKitten :: "world \<Rightarrow> KittenConfig \<Rightarrow> kerror + Kitten" where
  "NewKitten w config0 =
     (case ValidateConfig w config0 of
        Some err \<Rightarrow> Inl (ConfigInvalid err)
      | None \<Rightarrow>
          let config =
                (if KittenConfig.ID config0 = ''''
                 then config0\<lparr>KittenConfig.ID := GenerateID w ''kitten''\<rparr>
                 else config0)
          in Inr \<lparr> Kitten.ID = KittenConfig.ID config, config = config, state = StateCreated,
                    pid = 0, cmd = None, exitCode = 0, vethHost = '''', vethContainer = '''',
                    containerIP = '''', mutex = False, startTime = 0, stopTime = 0 \<rparr>)"

section \<open>IP allocator\<close>

subsection \<open>The standard library's CIDR parser, IPv4 half\<close>

text \<open>
  \<^verbatim>\<open>net.ParseCIDR\<close> with the functions it calls (\<^verbatim>\<open>netip.ParseAddr\<close>, \<^verbatim>\<open>parseIPv4\<close>,
  \<^verbatim>\<open>dtoi\<close>, \<^verbatim>\<open>CIDRMask\<close>, \<^verbatim>\<open>IP.Mask\<close>), each following the library's loop. An address is
  its bytes: four for IPv4, sixteen for IPv6.
\<close>

datatype Addr = Addr4 "byte list" | Addr6 "byte list" string

record IPNet =
  IP :: "byte list"
  Mask :: "byte list"

definition is_digit :: "char \<Rightarrow> bool" where
  "is_digit c = (48 \<le> (of_char c :: nat) \<and> (of_char c :: nat) \<le> 57)"

definition digit_val :: "char \<Rightarrow> nat" where
  "digit_val c = of_char c - 48"

text \<open>
  The loop of \<^verbatim>\<open>parseIPv4\<close>: \<open>first\<close> is \<^verbatim>\<open>i == 0\<close>, \<open>prev_dot\<close> is
  \<^verbatim>\<open>s[i-1] == '.'\<close>, \<open>flds\<close> (the source's \<^verbatim>\<open>fields\<close>) holds the \<^verbatim>\<open>pos\<close> octets read so far.
\<close>

fun parseIPv4_loop ::
  "string \<Rightarrow> bool \<Rightarrow> bool \<Rightarrow> byte list \<Rightarrow> nat \<Rightarrow> nat \<Rightarrow> byte list option" where
  "parseIPv4_loop [] first prev_dot flds val digLen =
     (if length flds < 3 then None else Some (flds @ [of_nat val]))"
| "parseIPv4_loop (c # cs) first prev_dot flds val digLen =
     (if is_digit c then
        (if digLen = 1 \<and> val = 0 then None
         else let val' = val * 10 + digit_val c in
              if val' > 255 then None
              else parseIPv4_loop cs False False flds val' (digLen + 1))
      else if c = CHR ''.'' then
        (if first \<or> cs = [] \<or> prev_dot then None
         else if length flds = 3 then None
         else parseIPv4_loop cs False True (flds @ [of_nat val]) 0 0)
      else None)"

definition parseIPv4 :: "string \<Rightarrow> byte list option" where
  "parseIPv4 s = parseIPv4_loop s True False [] 0 0"

text \<open>\<^verbatim>\<open>netip.ParseAddr\<close>: the first of \<^verbatim>\<open>.\<close>, \<^verbatim>\<open>:\<close> and \<^verbatim>\<open>%\<close> decides the parser.\<close>

fun ParseAddr_scan :: "world \<Rightarrow> string \<Rightarrow> string \<Rightarrow> Addr option" where
  "ParseAddr_scan w s [] = None"
| "ParseAddr_scan w s (c # cs) =
     (if c = CHR ''.'' then map_option Addr4 (parseIPv4 s)
      else if c = CHR '':'' then
        map_option (\<lambda>(bytes, zone). Addr6 (map bytes [0..<16]) zone) (parseIPv6 w s)
      else if c = CHR ''%'' then None
      else ParseAddr_scan w s cs)"

definition ParseAddr :: "world \<Rightarrow> string \<Rightarrow> Addr option" where
  "ParseAddr w s = ParseAddr_scan w s s"

fun Zone :: "Addr \<Rightarrow> string" where
  "Zone (Addr4 bs) = ''''"
| "Zone (Addr6 bs z) = z"

fun BitLen :: "Addr \<Rightarrow> nat" where
  "BitLen (Addr4 bs) = 32"
| "BitLen (Addr6 bs z) = 128"

definition v4InV6Prefix :: "byte list" where
  "v4InV6Prefix = [0, 0, 0, 0, 0, 0, 0, 0, 0, 0, 0xff, 0xff]"

fun As16 :: "Addr \<Rightarrow> byte list" where
  "As16 (Addr4 bs) = v4InV6Prefix @ bs"
| "As16 (Addr6 bs z) = bs"

text \<open>\<^verbatim>\<open>dtoi\<close>: the decimal number at the start of \<open>s\<close>, how many bytes it took, and ok.\<close>

definition big :: nat where
  "big = 0xFFFFFF"

fun dtoi_loop :: "string \<Rightarrow> nat \<Rightarrow> nat \<Rightarrow> nat \<times> nat \<times> bool" where
  "dtoi_loop [] n i = (if i = 0 then (0, 0, False) else (n, i, True))"
| "dtoi_loop (c # cs) n i =
     (if is_digit c then
        (let n' = n * 10 + digit_val c in
         if n' \<ge> big then (big, i, False) else dtoi_loop cs n' (i + 1))
      else if i = 0 then (0, 0, False) else (n, i, True))"

definition dtoi :: "string \<Rightarrow> nat \<times> nat \<times> bool" where
  "dtoi s = dtoi_loop s 0 0"

text \<open>\<^verbatim>\<open>CIDRMask(ones, bits)\<close>: \<open>l\<close> bytes remain to be written, \<open>n\<close> one bits remain.\<close>

fun CIDRMask_loop :: "nat \<Rightarrow> nat \<Rightarrow> byte list" where
  "CIDRMask_loop 0 n = []"
| "CIDRMask_loop (Suc l) n =
     (if n \<ge> 8 then 0xff # CIDRMask_loop l (n - 8)
      else NOT (drop_bit n (0xff :: byte)) # CIDRMask_loop l 0)"

definition CIDRMask :: "nat \<Rightarrow> nat \<Rightarrow> byte list" where
  "CIDRMask ones bits =
     (if bits \<noteq> 32 \<and> bits \<noteq> 128 then []
      else if ones > bits then []
      else CIDRMask_loop (bits div 8) ones)"

text \<open>\<^verbatim>\<open>IP.Mask\<close>; the nil result is the empty list.\<close>

definition IP_Mask :: "byte list \<Rightarrow> byte list \<Rightarrow> byte list" where
  "IP_Mask ip0 mask0 =
     (let mask = (if length mask0 = 16 \<and> length ip0 = 4 \<and> list_all (\<lambda>b. b = 0xff) (take 12 mask0)
                  then drop 12 mask0 else mask0);
          ip = (if length mask = 4 \<and> length ip0 = 16 \<and> take 12 ip0 = v4InV6Prefix
                then drop 12 ip0 else ip0)
      in if length ip \<noteq> length mask then []
         else map (\<lambda>(a, m). a AND m) (zip ip mask))"

definition ParseCIDR :: "world \<Rightarrow> string \<Rightarrow> IPNet option" where
  "ParseCIDR w s =
     (if CHR ''/'' \<notin> set s then None
      else let addr = takeWhile (\<lambda>c. c \<noteq> CHR ''/'') s;
               mask = tl (dropWhile (\<lambda>c. c \<noteq> CHR ''/'') s)
           in case ParseAddr w addr of
                None \<Rightarrow> None
              | Some ipAddr \<Rightarrow>
                  if Zone ipAddr \<noteq> '''' then None
                  else case dtoi mask of
                         (n, i, ok) \<Rightarrow>
                           if \<not> ok \<or> i \<noteq> length mask \<or> n > BitLen ipAddr then None
                           else let m = CIDRMask n (BitLen ipAddr)
                                in Some \<lparr> IP = IP_Mask (As16 ipAddr) m, Mask = m \<rparr>)"

subsection \<open>Printing an address\<close>

fun itoa :: "nat \<Rightarrow> string" where
  "itoa n = (if n < 10 then [char_of (48 + n)] else itoa (n div 10) @ [char_of (48 + n mod 10)])"

declare itoa.simps [simp del]

text \<open>
  \<^verbatim>\<open>IP.String\<close>: dotted decimal for four bytes; anything longer is the library's IPv6
  printer.
\<close>

definition IP_String :: "world \<Rightarrow> byte list \<Rightarrow> string" where
  "IP_String w ip =
     (if length ip = 4
      then itoa (unat (ip ! 0)) @ ''.'' @ itoa (unat (ip ! 1)) @ ''.'' @
           itoa (unat (ip ! 2)) @ ''.'' @ itoa (unat (ip ! 3))
      else ip6_String w ip)"

subsection \<open>allocateIP\<close>

text \<open>\<^verbatim>\<open>rand.Intn(n)\<close> yields a number in \<open>[0, n)\<close>.\<close>

definition Intn :: "world \<Rightarrow> nat \<Rightarrow> nat" where
  "Intn w n = rand_source w mod n"

definition allocateIP :: "world \<Rightarrow> string \<Rightarrow> string" where
  "allocateIP w subnet =
     (case ParseCIDR w subnet of
        None \<Rightarrow> ''''
      | Some ipnet \<Rightarrow>
          let ip = (IP ipnet)[3 := of_nat (Intn w 253 + 2)]
          in IP_String w ip)"

text \<open>
  Membership of an address in a network (\<^verbatim>\<open>IPNet.Contains\<close> for an address of the
  network's length), and the network's broadcast address.
\<close>

definition Contains :: "IPNet \<Rightarrow> byte list \<Rightarrow> bool" where
  "Contains n ip =
     (length ip = length (IP n) \<and>
      map (\<lambda>(a, m). a AND m) (zip ip (Mask n)) = map (\<lambda>(a, m). a AND m) (zip (IP n) (Mask n)))"

definition broadcast :: "IPNet \<Rightarrow> byte list" where
  "broadcast n = map (\<lambda>(a, m). a OR NOT m) (zip (IP n) (Mask n))"

section \<open>Child entry point: the environment\<close>

text \<open>
  The process environment maps a name to its value. \<^verbatim>\<open>os.Setenv\<close> refuses (with
  \<^verbatim>\<open>EINVAL\<close>) an empty name, a name holding \<^verbatim>\<open>=\<close> or a NUL byte, and a value holding a
  NUL byte; \<^verbatim>\<open>RunChild\<close> drops that error, so a refused call changes nothing.
  \<^verbatim>\<open>os.Getenv\<close> yields the empty string for a name that is not set.
\<close>

type_synonym environ = "string \<rightharpoonup> string"

definition NUL :: char where
  "NUL = char_of (0 :: nat)"

definition Setenv :: "string \<Rightarrow> string \<Rightarrow> environ \<Rightarrow> environ" where
  "Setenv key val env =
     (if key = [] \<or> CHR ''='' \<in> set key \<or> NUL \<in> set key \<or> NUL \<in> set val then env
      else env(key \<mapsto> val))"

definition Getenv :: "environ \<Rightarrow> string \<Rightarrow> string" where
  "Getenv env key =
     (if key = [] then ''''
      else case env key of None \<Rightarrow> '''' | Some val \<Rightarrow> val)"

definition default_PATH :: string where
  "default_PATH = ''/usr/local/sbin:/usr/local/bin:/usr/sbin:/usr/bin:/sbin:/bin''"

text \<open>
  \<^verbatim>\<open>for key, value := range config.Env { os.Setenv(key, value) }\<close>: \<open>keys\<close> is the order
  in which the range visits the map's keys.
\<close>

fun apply_Env :: "(string \<rightharpoonup> string) \<Rightarrow> string list \<Rightarrow> environ \<Rightarrow> environ" where
  "apply_Env cenv [] env = env"
| "apply_Env cenv (key # keys) env =
     (case cenv key of
        None \<Rightarrow> apply_Env cenv keys env
      | Some val \<Rightarrow> apply_Env cenv keys (Setenv key val env))"

text \<open>The environment step of \<^verbatim>\<open>RunChild\<close>: the mapping, then the two defaults.\<close>

definition RunChild_env :: "KittenConfig \<Rightarrow> string list \<Rightarrow> environ \<Rightarrow> environ" where
  "RunChild_env cfg keys env0 =
     (let env1 = apply_Env (Env cfg) keys env0;
          env2 = (if Getenv env1 ''PATH'' = '''' then Setenv ''PATH'' default_PATH env1
                  else env1);
          env3 = (if Getenv env2 ''HOME'' = '''' then Setenv ''HOME'' ''/root'' env2
                  else env2)
      in env3)"

section \<open>Container handle: Start, Wait, Stop\<close>

text \<open>
  \<^verbatim>\<open>cleanup\<close> removes the port-forward rules and deletes the host-side veth: host state
  only, no field of the handle changes.
\<close>

definition cleanup :: "Kitten \<Rightarrow> Kitten" where
  "cleanup k = k"

text \<open>\<^verbatim>\<open>k.mutex.Unlock()\<close>, as the deferred call of \<^verbatim>\<open>Start\<close> and \<^verbatim>\<open>Stop\<close> runs it.\<close>

definition unlock :: "Kitten \<Rightarrow> Kitten" where
  "unlock k = k\<lparr>mutex := False\<rparr>"

text \<open>
  \<^verbatim>\<open>Stop\<close>. \<^verbatim>\<open>k.mutex.Lock()\<close> on a locked mutex never returns: no code unlocks a mutex
  it does not hold. The wait for the child (five seconds, then \<^verbatim>\<open>Kill\<close>) touches no
  field of the handle.
\<close>

definition Stop :: "world \<Rightarrow> Kitten \<Rightarrow> (kerror option \<times> Kitten) outcome" where
  "Stop w k0 =
     (if mutex k0 then Blocks
      else let k = k0\<lparr>mutex := True\<rparr> in
        if state k \<noteq> StateRunning then Returns (Some NotRunning, unlock k)
        else case cmd k of
               None \<Rightarrow> Returns (Some NoProcess, unlock k)
             | Some c \<Rightarrow>
                 (case Process c of
                    None \<Rightarrow> Returns (Some NoProcess, unlock k)
                  | Some p \<Rightarrow>
                      if \<not> Signal_ok w then Returns (Some SignalFailed, unlock k)
                      else Returns (None,
                             unlock (cleanup (k\<lparr>state := StateStopped,
                                                stopTime := time_Now w\<rparr>)))))"

text \<open>
  Lines 94 to 108 of \<^verbatim>\<open>Start\<close>, with the mutex held: the veth pair and the address.
  \<^verbatim>\<open>k.config.Network.Subnet\<close> on a nil \<^verbatim>\<open>Network\<close> panics.
\<close>

definition Start_network :: "world \<Rightarrow> Kitten \<Rightarrow> (kerror option \<times> Kitten) outcome" where
  "Start_network w k =
     (if Net (Namespaces (config k)) then
        (case createVethPair w (Kitten.ID k) of
           Inl err \<Rightarrow> Returns (Some err, k)
         | Inr (vh, vc) \<Rightarrow>
             (case Network (config k) of
                None \<Rightarrow> Panics
              | Some nc \<Rightarrow>
                  let ip = allocateIP w (Subnet nc) in
                  Returns (None,
                    k\<lparr> vethHost := vh, vethContainer := vc, containerIP := ip,
                       config := (config k)\<lparr>Network := Some (nc\<lparr>ContainerIP := ip\<rparr>)\<rparr> \<rparr>)))
      else Returns (None, k))"

text \<open>
  A failing step of the finalisation calls \<^verbatim>\<open>k.Stop()\<close> and then returns its error.
  \<^verbatim>\<open>Start\<close> still holds the mutex at that point. Were \<^verbatim>\<open>Stop\<close> to return, it would
  have released the mutex, and the deferred \<^verbatim>\<open>Unlock\<close> of \<^verbatim>\<open>Start\<close> would be fatal.
\<close>

definition fail_after_Stop :: "world \<Rightarrow> Kitten \<Rightarrow> (kerror option \<times> Kitten) outcome" where
  "fail_after_Stop w k =
     (case Stop w k of
        Blocks \<Rightarrow> Blocks
      | Panics \<Rightarrow> Panics
      | Returns (err, k') \<Rightarrow>
          if mutex k' then Returns (Some NetworkSetupFailed, unlock k') else Panics)"

fun addPortForwards :: "world \<Rightarrow> PortMapping list \<Rightarrow> bool" where
  "addPortForwards w [] = True"
| "addPortForwards w (portMapping # rest) =
     (if addPortForward_ok w portMapping then addPortForwards w rest else False)"

text \<open>Lines 141 to 189 of \<^verbatim>\<open>Start\<close>: the network finalisation and the final return.\<close>

definition Start_finalize :: "world \<Rightarrow> Kitten \<Rightarrow> (kerror option \<times> Kitten) outcome" where
  "Start_finalize w k =
     (if Net (Namespaces (config k)) then
        (if \<not> moveVeth_ok w then fail_after_Stop w k
         else if \<not> renameVeth_ok w then fail_after_Stop w k
         else if \<not> linkUp_ok w then fail_after_Stop w k
         else case Network (config k) of
                None \<Rightarrow> Panics
              | Some nc \<Rightarrow>
                  if \<not> configureHostVeth_ok w then fail_after_Stop w k
                  else if \<not> addrAdd_ok w then fail_after_Stop w k
                  else if \<not> routeAdd_ok w then fail_after_Stop w k
                  else if \<not> addPortForwards w (PortMappings nc) then fail_after_Stop w k
                  else Returns (None, unlock k))
      else Returns (None, unlock k))"

definition Start :: "world \<Rightarrow> Kitten \<Rightarrow> (kerror option \<times> Kitten) outcome" where
  "Start w k0 =
     (if mutex k0 then Blocks
      else let k = k0\<lparr>mutex := True\<rparr> in
        if state k \<noteq> StateCreated then Returns (Some AlreadyStarted, unlock k)
        else case Start_network w k of
               Blocks \<Rightarrow> Blocks
             | Panics \<Rightarrow> Panics
             | Returns (Some err, k1) \<Rightarrow> Returns (Some err, unlock k1)
             | Returns (None, k1) \<Rightarrow>
                 if \<not> Marshal_ok w then Returns (Some MarshalFailed, unlock (cleanup k1))
                 else if stat w (RootFS (config k1)) = NotExist
                   then Returns (Some RootFSMissing, unlock k1)
                 else case cmd_Start w of
                        None \<Rightarrow> Returns (Some SpawnFailed, unlock (cleanup k1))
                      | Some p \<Rightarrow>
                          Start_finalize w
                            (k1\<lparr> pid := p,
                                 cmd := Some \<lparr> child_config = config k1, Process = Some p \<rparr>,
                                 state := StateRunning,
                                 startTime := time_Now w \<rparr>))"

text \<open>
  \<^verbatim>\<open>Wait\<close>: \<^verbatim>\<open>k.cmd.Wait()\<close> runs before the lock is taken. The result is the exit code
  and the error of \<^verbatim>\<open>cmd.Wait\<close>.
\<close>

definition Wait :: "world \<Rightarrow> Kitten \<Rightarrow> ((int \<times> kerror option) \<times> Kitten) outcome" where
  "Wait w k =
     (case cmd k of
        None \<Rightarrow> Returns ((0, Some NotStarted), k)
      | Some c \<Rightarrow>
          if cmd_Wait w = NeverExits then Blocks
          else if mutex k then Blocks
          else let code = (case cmd_Wait w of ExitError n \<Rightarrow> n | WaitFailed \<Rightarrow> 1 | _ \<Rightarrow> 0);
                   err = (case cmd_Wait w of
                            ExitError n \<Rightarrow> Some (ChildExitError n)
                          | WaitFailed \<Rightarrow> Some ChildWaitFailed
                          | _ \<Rightarrow> None);
                   k' = cleanup (k\<lparr> state := StateStopped, stopTime := time_Now w,
                                     exitCode := code \<rparr>)
               in Returns ((exitCode k', err), k'))"

text \<open>
  \<^verbatim>\<open>PID\<close> locks, reads and unlocks; on a handle whose mutex is free that is the field.
\<close>

definition Kitten_PID :: "Kitten \<Rightarrow> int" where
  "Kitten_PID k = pid k"

section \<open>Orchestrator (pkg/manager.go)\<close>

text \<open>
  The deployment as decoded from JSON. The fields of \<^verbatim>\<open>ContainerSpec\<close> and
  \<^verbatim>\<open>NetworkSpec\<close> carry the names of their JSON tags (\<^verbatim>\<open>Image\<close> is \<open>image\<close>,
  \<^verbatim>\<open>DependsOn\<close> is \<open>depends_on\<close>, and so on), which keeps them apart from the fields of
  \<^verbatim>\<open>KittenConfig\<close>. A Go map is a partial function; a \<^verbatim>\<open>range\<close> over it visits its
  keys in an order the run time chooses.
\<close>

record ContainerSpec =
  image :: string
  command :: "string list"
  hostname :: string
  workdir :: string
  environment :: "string \<rightharpoonup> string"
  ports :: "string list"
  network :: string
  ip :: string
  depends_on :: "string list"
  restart :: string
  namespaces :: "NamespaceConfig option"

record NetworkSpec =
  driver :: string
  subnet :: string
  gateway :: string

record ManagerConfig =
  Version :: string
  Containers :: "string \<rightharpoonup> ContainerSpec"
  Networks :: "string \<rightharpoonup> NetworkSpec"

text \<open>
  The manager; its \<^verbatim>\<open>config\<close> field is \<open>mconfig\<close> here. A handle is a pointer in the
  source: an operation on a handle of \<open>containers\<close> is written back into the map. The
  manager's lock is left out: the model runs one call at a time and no method calls
  another one that locks. The restart supervisor is a goroutine and is not modelled.
\<close>

record Manager =
  mconfig :: ManagerConfig
  containers :: "string \<rightharpoonup> Kitten"
  networks :: "string \<rightharpoonup> NetworkConfig"

text \<open>
  What the manager reads from outside: whether \<^verbatim>\<open>CreateBridge\<close> succeeds, the world
  each container meets when it is created, started or stopped, what
  \<^verbatim>\<open>fmt.Sscanf(pm, "%d:%d", ...)\<close> reads from a port text, and the orders in which the
  \<^verbatim>\<open>range\<close> loops visit their maps (\<open>range_containers h i\<close> for pass \<open>i\<close> of
  \<^verbatim>\<open>Start\<close>).
\<close>

record host =
  CreateBridge_ok :: "string \<Rightarrow> string \<Rightarrow> string \<Rightarrow> bool"
  container_world :: "string \<Rightarrow> world"
  Sscanf_port :: "string \<Rightarrow> (int \<times> int) option"
  range_networks :: "string list"
  range_containers :: "nat \<Rightarrow> string list"
  range_deps :: "string list"

datatype merror =
    CreateNetworksFailed
  | InvalidPortMapping string
  | KittenFailed kerror
  | ContainerStartFailed string merror
  | CircularOrMissingDependency

definition NewManager :: "ManagerConfig \<Rightarrow> Manager" where
  "NewManager cfg = \<lparr> mconfig = cfg, containers = Map.empty, networks = Map.empty \<rparr>"

subsection \<open>Networks\<close>

fun createNetworks_loop ::
  "host \<Rightarrow> (string \<rightharpoonup> NetworkSpec) \<Rightarrow> string list \<Rightarrow> (string \<rightharpoonup> NetworkConfig) \<Rightarrow>
   merror option \<times> (string \<rightharpoonup> NetworkConfig)" where
  "createNetworks_loop h specs [] nets = (None, nets)"
| "createNetworks_loop h specs (name # rest) nets =
     (case specs name of
        None \<Rightarrow> createNetworks_loop h specs rest nets
      | Some spec \<Rightarrow>
          let netConfig =
                \<lparr> Mode = driver spec,
                  BridgeName = (if driver spec = ''bridge'' then ''kitten0'' else ''''),
                  ContainerIP = '''',
                  GatewayIP = (if gateway spec \<noteq> '''' then gateway spec
                               else if subnet spec \<noteq> '''' then ''10.0.0.1'' else ''''),
                  Subnet = subnet spec,
                  PortMappings = [] \<rparr>
          in if driver spec = ''bridge'' \<and>
                \<not> CreateBridge_ok h ''kitten0'' (subnet spec) (gateway spec)
             then (Some CreateNetworksFailed, nets)
             else createNetworks_loop h specs rest (nets(name \<mapsto> netConfig)))"

definition createNetworks :: "host \<Rightarrow> Manager \<Rightarrow> merror option \<times> Manager" where
  "createNetworks h m =
     (case createNetworks_loop h (Networks (mconfig m)) (range_networks h) (networks m) of
        (err, nets) \<Rightarrow> (err, m\<lparr>networks := nets\<rparr>))"

subsection \<open>Starting one container\<close>

fun parse_ports :: "host \<Rightarrow> string list \<Rightarrow> PortMapping list \<Rightarrow> merror + PortMapping list" where
  "parse_ports h [] acc = Inr acc"
| "parse_ports h (pm # rest) acc =
     (case Sscanf_port h pm of
        None \<Rightarrow> Inl (InvalidPortMapping pm)
      | Some (hostPort, containerPort) \<Rightarrow>
          parse_ports h rest
            (acc @ [\<lparr> HostPort = hostPort, ContainerPort = containerPort,
                      Protocol = ''tcp'' \<rparr>]))"

text \<open>The \<^verbatim>\<open>KittenConfig\<close> that \<^verbatim>\<open>startContainer\<close> builds, or the port error.\<close>

definition container_config ::
  "host \<Rightarrow> Manager \<Rightarrow> string \<Rightarrow> ContainerSpec \<Rightarrow> merror + KittenConfig" where
  "container_config h m name spec =
     (let c0 = NewDefaultConfig\<lparr> RootFS := image spec, Command := command spec,
                                 Hostname := (if hostname spec = '''' then name
                                              else hostname spec),
                                 WorkingDir := (if workdir spec = '''' then ''/''
                                                else workdir spec),
                                 Env := environment spec \<rparr>;
          c1 = (case namespaces spec of None \<Rightarrow> c0 | Some ns \<Rightarrow> c0\<lparr>Namespaces := ns\<rparr>);
          c2 = (if network spec \<noteq> '''' then
                  (case networks m (network spec) of
                     None \<Rightarrow> Inr c1
                   | Some netConfig \<Rightarrow>
                       (case parse_ports h (ports spec) [] of
                          Inl err \<Rightarrow> Inl err
                        | Inr pms \<Rightarrow>
                            Inr (c1\<lparr> Namespaces := (Namespaces c1)\<lparr>Net := True\<rparr>,
                                     Network := Some
                                       \<lparr> Mode = Mode netConfig,
                                         BridgeName = (if Mode netConfig = ''bridge''
                                                       then ''kitten0'' else ''''),
                                         ContainerIP = ip spec,
                                         GatewayIP = GatewayIP netConfig,
                                         Subnet = Subnet netConfig,
                                         PortMappings = pms \<rparr> \<rparr>)))
                else Inr c1)
      in case c2 of
           Inl err \<Rightarrow> Inl err
         | Inr c \<Rightarrow> Inr (c\<lparr>Mounts := PrepareDefaultMounts\<rparr>))"

definition startContainer ::
  "host \<Rightarrow> Manager \<Rightarrow> string \<Rightarrow> ContainerSpec \<Rightarrow> (merror option \<times> Manager) outcome" where
  "startContainer h m name spec =
     (case container_config h m name spec of
        Inl err \<Rightarrow> Returns (Some err, m)
      | Inr c \<Rightarrow>
          (case NewKitten (container_world h name) c of
             Inl err \<Rightarrow> Returns (Some (KittenFailed err), m)
           | Inr k \<Rightarrow>
               (case Start (container_world h name) k of
                  Blocks \<Rightarrow> Blocks
                | Panics \<Rightarrow> Panics
                | Returns (Some err, k') \<Rightarrow> Returns (Some (KittenFailed err), m)
                | Returns (None, k') \<Rightarrow>
                    Returns (None, m\<lparr>containers := (containers m)(name \<mapsto> k')\<rparr>))))"

subsection \<open>Manager.Start\<close>

text \<open>
  One pass of the scan over \<^verbatim>\<open>m.config.Containers\<close>, visiting the names in the order
  given. \<open>started\<close> lists the names started so far, in the order of their start;
  \<^verbatim>\<open>started[name]\<close> is membership. The result is the error that ended the pass, if
  any, the manager, \<open>started\<close> and \<open>progress\<close>.
\<close>

fun Start_pass ::
  "host \<Rightarrow> string list \<Rightarrow> Manager \<Rightarrow> string list \<Rightarrow> bool \<Rightarrow>
   (merror option \<times> Manager \<times> string list \<times> bool) outcome" where
  "Start_pass h [] m started progress = Returns (None, m, started, progress)"
| "Start_pass h (name # rest) m started progress =
     (case Containers (mconfig m) name of
        None \<Rightarrow> Start_pass h rest m started progress
      | Some spec \<Rightarrow>
          if name \<in> set started then Start_pass h rest m started progress
          else if list_all (\<lambda>dep. dep \<in> set started) (depends_on spec) then
            (case startContainer h m name spec of
               Blocks \<Rightarrow> Blocks
             | Panics \<Rightarrow> Panics
             | Returns (Some err, m') \<Rightarrow>
                 Returns (Some (ContainerStartFailed name err), m', started, progress)
             | Returns (None, m') \<Rightarrow> Start_pass h rest m' (started @ [name]) True)
          else Start_pass h rest m started progress)"

lemma startContainer_mconfig:
  "startContainer h m name spec = Returns (err, m') \<Longrightarrow> mconfig m' = mconfig m"
  by (auto simp: startContainer_def split: sum.splits outcome.splits option.splits)

lemma Start_pass_grows:
  "Start_pass h names m started progress = Returns (err, m', started', progress') \<Longrightarrow>
   mconfig m' = mconfig m \<and> set started \<subseteq> set started' \<and>
   (progress' \<longrightarrow> progress \<or> set started \<subset> set started')"
proof (induction names arbitrary: m started progress)
  case Nil
  then show ?case by simp
next
  case (Cons name rest)
  show ?case
  proof (cases "Containers (mconfig m) name")
    case None
    with Cons.prems have "Start_pass h rest m started progress =
                            Returns (err, m', started', progress')"
      by simp
    from Cons.IH[OF this] show ?thesis .
  next
    case (Some spec)
    show ?thesis
    proof (cases "name \<notin> set started \<and> list_all (\<lambda>dep. dep \<in> set started) (depends_on spec)")
      case False
      with Cons.prems Some have "Start_pass h rest m started progress =
                                   Returns (err, m', started', progress')"
        by (auto split: if_splits)
      from Cons.IH[OF this] show ?thesis .
    next
      case True
      show ?thesis
      proof (cases "startContainer h m name spec")
        case (Returns r)
        obtain e m1 where r: "r = (e, m1)" by (cases r)
        have mc: "mconfig m1 = mconfig m"
          using startContainer_mconfig Returns r by blast
        show ?thesis
        proof (cases e)
          case None
          with Cons.prems Some True Returns r
          have "Start_pass h rest m1 (started @ [name]) True =
                  Returns (err, m', started', progress')"
            by simp
          from Cons.IH[OF this] mc True show ?thesis by auto
        next
          case (Some e')
          with Cons.prems \<open>Containers (mconfig m) name = Some spec\<close> True Returns r mc
          show ?thesis by auto
        qed
      next
        case Blocks
        with Cons.prems Some True show ?thesis by simp
      next
        case Panics
        with Cons.prems Some True show ?thesis by simp
      qed
    qed
  qed
qed

text \<open>
  The loop of \<^verbatim>\<open>Start\<close>: pass \<open>i\<close> runs while fewer names are started than containers
  are declared; a pass without progress ends it with the dependency error.
\<close>

function Start_loop ::
  "host \<Rightarrow> nat \<Rightarrow> Manager \<Rightarrow> string list \<Rightarrow> (merror option \<times> Manager) outcome" where
  "Start_loop h i m started =
     (if card (set started) < card (dom (Containers (mconfig m))) then
        (case Start_pass h (range_containers h i) m started False of
           Blocks \<Rightarrow> Blocks
         | Panics \<Rightarrow> Panics
         | Returns (Some err, m', started', progress) \<Rightarrow> Returns (Some err, m')
         | Returns (None, m', started', progress) \<Rightarrow>
             if \<not> progress then Returns (Some CircularOrMissingDependency, m')
             else Start_loop h (Suc i) m' started')
      else Returns (None, m))"
  by pat_completeness auto
termination
proof (relation "measure (\<lambda>(h, i, m, started).
                   card (dom (Containers (mconfig m))) - card (set started))", goal_cases)
  case 1
  show ?case by simp
next
  case (2 h i m started x1 x2 y m' z started' progress)
  then have pass: "Start_pass h (range_containers h i) m started False =
                     Returns (None, m', started', progress)"
    and pr: progress
    and lt: "card (set started) < card (dom (Containers (mconfig m)))"
    by auto
  from Start_pass_grows[OF pass] pr
  have mc: "mconfig m' = mconfig m" and sub: "set started \<subset> set started'"
    by auto
  from sub have "card (set started) < card (set started')"
    by (simp add: psubset_card_mono)
  with lt mc show ?case by simp
qed

declare Start_loop.simps [simp del]

definition Manager_Start :: "host \<Rightarrow> Manager \<Rightarrow> (merror option \<times> Manager) outcome" where
  "Manager_Start h m =
     (case createNetworks h m of
        (Some err, m') \<Rightarrow> Returns (Some err, m')
      | (None, m') \<Rightarrow> Start_loop h 0 m' [])"

subsection \<open>Status\<close>

definition Status :: "Manager \<Rightarrow> string \<rightharpoonup> string" where
  "Status m =
     (\<lambda>name. case containers m name of
                None \<Rightarrow> None
              | Some k \<Rightarrow> Some (if Kitten_PID k > 0 then ''running'' else ''stopped''))"

subsection \<open>Stop order\<close>

definition buildDependencyGraph :: "Manager \<Rightarrow> string \<rightharpoonup> string list" where
  "buildDependencyGraph m =
     (\<lambda>name. case Containers (mconfig m) name of
                None \<Rightarrow> None
              | Some spec \<Rightarrow> Some (depends_on spec))"

text \<open>\<^verbatim>\<open>deps[name]\<close>: the nil slice for a name that is not a key.\<close>

definition deps_of :: "(string \<rightharpoonup> string list) \<Rightarrow> string \<Rightarrow> string list" where
  "deps_of deps name = (case deps name of None \<Rightarrow> [] | Some ds \<Rightarrow> ds)"

text \<open>
  The closure \<^verbatim>\<open>visit\<close> of \<^verbatim>\<open>getStopOrder\<close>, with the two variables it captures,
  \<open>visited\<close> and \<open>order\<close>, passed in and out. The recursion is bounded by fuel: one
  unit per nested call.
\<close>

type_synonym dfs_state = "string list \<times> string list"

fun visit_each ::
  "(string \<Rightarrow> dfs_state \<Rightarrow> dfs_state option) \<Rightarrow> string list \<Rightarrow> dfs_state \<Rightarrow>
   dfs_state option" where
  "visit_each v [] s = Some s"
| "visit_each v (dep # rest) s =
     (case v dep s of None \<Rightarrow> None | Some s' \<Rightarrow> visit_each v rest s')"

fun visit :: "nat \<Rightarrow> (string \<rightharpoonup> string list) \<Rightarrow> string \<Rightarrow> dfs_state \<Rightarrow> dfs_state option" where
  "visit 0 deps name s = None"
| "visit (Suc fuel) deps name (visited, order) =
     (if name \<in> set visited then Some (visited, order)
      else case visit_each (visit fuel deps) (deps_of deps name) (name # visited, order) of
             None \<Rightarrow> None
           | Some (visited', order') \<Rightarrow> Some (visited', order' @ [name]))"

text \<open>The in-place reversal at the end of \<^verbatim>\<open>getStopOrder\<close>.\<close>

function reverse_loop :: "nat \<Rightarrow> nat \<Rightarrow> 'a list \<Rightarrow> 'a list" where
  "reverse_loop i j xs =
     (if i < j then reverse_loop (i + 1) (j - 1) (xs[i := xs ! j, j := xs ! i]) else xs)"
  by pat_completeness auto
termination
  by (relation "measure (\<lambda>(i, j, xs). j - i)") auto

declare reverse_loop.simps [simp del]

definition reverse :: "'a list \<Rightarrow> 'a list" where
  "reverse xs = reverse_loop 0 (length xs - 1) xs"

text \<open>
  \<^verbatim>\<open>getStopOrder\<close>; \<open>keys\<close> is the order in which \<^verbatim>\<open>range deps\<close> visits the map. The
  fuel is one more than the number of names in sight, which no chain of nested calls
  exceeds.
\<close>

definition all_names :: "(string \<rightharpoonup> string list) \<Rightarrow> string list \<Rightarrow> string list" where
  "all_names deps keys = keys @ concat (map (deps_of deps) keys)"

definition getStopOrder :: "(string \<rightharpoonup> string list) \<Rightarrow> string list \<Rightarrow> string list option" where
  "getStopOrder deps keys =
     (case visit_each (visit (Suc (length (all_names deps keys))) deps) keys ([], []) of
        None \<Rightarrow> None
      | Some (visited, order) \<Rightarrow> Some (reverse order))"

subsection \<open>Manager.Stop\<close>

fun Stop_each :: "host \<Rightarrow> string list \<Rightarrow> Manager \<Rightarrow> Manager outcome" where
  "Stop_each h [] m = Returns m"
| "Stop_each h (name # rest) m =
     (case containers m name of
        None \<Rightarrow> Stop_each h rest m
      | Some k \<Rightarrow>
          (case Stop (container_world h name) k of
             Blocks \<Rightarrow> Blocks
           | Panics \<Rightarrow> Panics
           | Returns (err, k') \<Rightarrow>
               Stop_each h rest (m\<lparr>containers := (containers m)(name \<mapsto> k')\<rparr>)))"

text \<open>
  \<^verbatim>\<open>cleanupNetworks\<close> deletes the bridges on the host and replaces the network map by
  an empty one.
\<close>

definition Manager_Stop :: "host \<Rightarrow> Manager \<Rightarrow> (merror option \<times> Manager) outcome" where
  "Manager_Stop h m =
     (case getStopOrder (buildDependencyGraph m) (range_deps h) of
        None \<Rightarrow> Blocks
      | Some order \<Rightarrow>
          (case Stop_each h order m of
             Blocks \<Rightarrow> Blocks
           | Panics \<Rightarrow> Panics
           | Returns m' \<Rightarrow> Returns (None, m'\<lparr>networks := Map.empty\<rparr>)))"

section \<open>Dependency order\<close>

text \<open>
  The dependency relation of a graph: \<open>(a, b)\<close> when \<open>a\<close> lists \<open>b\<close> in its
  \<^verbatim>\<open>depends_on\<close>. A list is dependency-sorted when every element comes after all the
  names it depends on.
\<close>

definition dep_rel :: "(string \<rightharpoonup> string list) \<Rightarrow> (string \<times> string) set" where
  "dep_rel deps = {(a, b). b \<in> set (deps_of deps a)}"

definition dep_sorted :: "(string \<rightharpoonup> string list) \<Rightarrow> string list \<Rightarrow> bool" where
  "dep_sorted deps names =
     (\<forall>pre a post. names = pre @ a # post \<longrightarrow> set (deps_of deps a) \<subseteq> set pre)"

text \<open>
  The invariant of the depth-first search: the visited names are the finished ones (those
  in \<open>order\<close>) and the ones still open on the call stack (\<open>S\<close>).
\<close>

definition dfs_inv :: "(string \<rightharpoonup> string list) \<Rightarrow> string set \<Rightarrow> dfs_state \<Rightarrow> bool" where
  "dfs_inv deps S s =
     (set (fst s) = set (snd s) \<union> S \<and> set (snd s) \<inter> S = {} \<and> distinct (snd s) \<and>
      dep_sorted deps (snd s))"

text \<open>The position of the first occurrence of a name in a list.\<close>

definition first_pos :: "string \<Rightarrow> string list \<Rightarrow> nat" where
  "first_pos a names = length (takeWhile (\<lambda>x. x \<noteq> a) names)"

text \<open>
  A deployment that \<^verbatim>\<open>Start\<close> cannot complete: its dependency graph has a cycle, or a
  container depends on a name that is not declared.
\<close>

definition cyclic_or_missing :: "Manager \<Rightarrow> bool" where
  "cyclic_or_missing m =
     (\<not> acyclic (dep_rel (buildDependencyGraph m)) \<or>
      (\<exists>a b. (a, b) \<in> dep_rel (buildDependencyGraph m) \<and> b \<notin> dom (Containers (mconfig m))))"

text \<open>
  Every start of a declared container succeeds on the host, whatever handles the manager
  already holds.
\<close>

definition starts_succeed :: "host \<Rightarrow> Manager \<Rightarrow> bool" where
  "starts_succeed h m =
     (\<forall>m1 name spec.
        mconfig m1 = mconfig m \<and> networks m1 = networks m \<and>
        Containers (mconfig m) name = Some spec \<longrightarrow>
          (\<exists>m2. startContainer h m1 name spec = Returns (None, m2)))"

section \<open>Properties stated over the model\<close>

text \<open>
  The validation rules as the specification words them: rootfs non-empty, existing and a
  directory, command non-empty, network configuration present if and only if Net, no
  empty mount target.
\<close>

definition spec_rules_hold :: "world \<Rightarrow> KittenConfig \<Rightarrow> bool" where
  "spec_rules_hold w c =
     (RootFS c \<noteq> '''' \<and> stat w (RootFS c) = IsDir \<and> Command c \<noteq> [] \<and>
      ((Network c \<noteq> None) = Net (Namespaces c)) \<and>
      \<not> list_ex (\<lambda>m. Target m = '''') (Mounts c))"

text \<open>The rules the code enforces: Net requires a network configuration, not conversely.\<close>

definition code_rules_hold :: "world \<Rightarrow> KittenConfig \<Rightarrow> bool" where
  "code_rules_hold w c =
     (RootFS c \<noteq> '''' \<and> stat w (RootFS c) = IsDir \<and> Command c \<noteq> [] \<and>
      (Net (Namespaces c) \<and> Network c = None) = False \<and>
      \<not> list_ex (\<lambda>m. Target m = '''') (Mounts c))"


text \<open>
  The veth-name key as the specification words it: the first 6 characters of the ID's
  suffix after \<^verbatim>\<open>_\<close>.
\<close>

definition spec_shortID :: "string \<Rightarrow> string" where
  "spec_shortID kid = take 6 (tl (dropWhile (\<lambda>c. c \<noteq> CHR ''_'') kid))"
section \<open>Concrete inputs used to evaluate the model\<close>

text \<open>
  A host on which every operation succeeds: \<^verbatim>\<open>/opt/rootfs\<close> is a directory, nothing
  else exists, the child gets pid 4242 and exits with status 0.
\<close>

definition world_ok :: world where
  "world_ok =
     \<lparr> stat = (\<lambda>p. if p = ''/opt/rootfs'' then IsDir else NotExist),
       rand_byte = (\<lambda>i. of_nat (17 * i + 3)),
       rand_source = 198,
       parseIPv6 = (\<lambda>s. None),
       ip6_String = (\<lambda>ip. ''''),
       LinkAdd_ok = True, Marshal_ok = True, cmd_Start = Some 4242, time_Now = 1000,
       moveVeth_ok = True, renameVeth_ok = True, linkUp_ok = True,
       configureHostVeth_ok = True, addrAdd_ok = True, routeAdd_ok = True,
       addPortForward_ok = (\<lambda>pm. True), Signal_ok = True, cmd_Wait = Exited0 \<rparr>"

text \<open>The echo container of the examples: no network namespace, no network.\<close>

definition config_echo :: KittenConfig where
  "config_echo =
     NewDefaultConfig\<lparr> RootFS := ''/opt/rootfs'', Command := [''/bin/echo'', ''hello''],
                       Mounts := PrepareDefaultMounts \<rparr>"

text \<open>The same container carrying a network attachment although Net is disabled.\<close>

definition config_net_off :: KittenConfig where
  "config_net_off =
     config_echo\<lparr> Network := Some \<lparr> Mode = ''bridge'', BridgeName = ''kitten0'',
                                       ContainerIP = '''', GatewayIP = ''10.0.0.1'',
                                       Subnet = ''10.0.0.0/24'', PortMappings = [] \<rparr> \<rparr>"

text \<open>The handle \<open>NewKitten\<close> makes of the echo container on that host.\<close>

definition kitten_echo :: Kitten where
  "kitten_echo =
     \<lparr> Kitten.ID = ''kitten_031425364758697a'',
       config = config_echo\<lparr>KittenConfig.ID := ''kitten_031425364758697a''\<rparr>,
       state = StateCreated, pid = 0, cmd = None, exitCode = 0, vethHost = '''',
       vethContainer = '''', containerIP = '''', mutex = False, startTime = 0,
       stopTime = 0 \<rparr>"

text \<open>That handle after a successful \<open>Start\<close> on the same host.\<close>

definition kitten_echo_running :: Kitten where
  "kitten_echo_running =
     kitten_echo\<lparr> pid := 4242,
                  cmd := Some \<lparr> child_config = config kitten_echo, Process = Some 4242 \<rparr>,
                  state := StateRunning, startTime := 1000 \<rparr>"

text \<open>That handle once the child has exited with status 0 and \<open>Wait\<close> has returned.\<close>

definition kitten_echo_stopped :: Kitten where
  "kitten_echo_stopped = kitten_echo_running\<lparr> state := StateStopped, stopTime := 1000 \<rparr>"

text \<open>
  A handle with the Net namespace whose subnet text lacks the prefix length, and the
  same handle after \<open>Start\<close>.
\<close>

definition kitten_no_prefix :: Kitten where
  "kitten_no_prefix =
     kitten_echo\<lparr> config := (config kitten_echo)
       \<lparr> Namespaces := (Namespaces (config kitten_echo))\<lparr>Net := True\<rparr>,
         Network := Some \<lparr> Mode = ''bridge'', BridgeName = ''kitten0'', ContainerIP = '''',
                            GatewayIP = ''10.0.0.1'', Subnet = ''10.0.0.0'',
                            PortMappings = [] \<rparr> \<rparr> \<rparr>"

text \<open>A manager of a deployment that declares nothing.\<close>

definition manager_empty :: Manager where
  "manager_empty = NewManager \<lparr> Version = ''1'', Containers = Map.empty, Networks = Map.empty \<rparr>"

text \<open>The echo container with an empty \<^verbatim>\<open>PATH\<close>, and with a \<^verbatim>\<open>PATH\<close> of its own.\<close>

definition config_empty_PATH :: KittenConfig where
  "config_empty_PATH = config_echo\<lparr>Env := [''PATH'' \<mapsto> '''']\<rparr>"

definition config_own_PATH :: KittenConfig where
  "config_own_PATH = config_echo\<lparr>Env := [''PATH'' \<mapsto> ''/opt/bin'']\<rparr>"

text \<open>
  Deployments: \<^verbatim>\<open>web\<close> depending on \<^verbatim>\<open>db\<close>; \<^verbatim>\<open>a\<close> and \<^verbatim>\<open>b\<close> depending on each
  other beside an independent \<^verbatim>\<open>c\<close>; and the same with a root file system for
  \<^verbatim>\<open>c\<close> that does not exist. The host lets every operation succeed.
\<close>

definition spec_db :: ContainerSpec where
  "spec_db =
     \<lparr> image = ''/opt/rootfs'', command = [''/bin/sh''], hostname = '''', workdir = '''',
       environment = Map.empty, ports = [], network = '''', ip = '''', depends_on = [],
       restart = ''no'', namespaces = None \<rparr>"

definition manager_web_db :: Manager where
  "manager_web_db =
     NewManager \<lparr> Version = ''1'',
                  Containers = [''web'' \<mapsto> spec_db\<lparr>depends_on := [''db'']\<rparr>,
                                ''db'' \<mapsto> spec_db],
                  Networks = Map.empty \<rparr>"

definition manager_cycle :: Manager where
  "manager_cycle =
     NewManager \<lparr> Version = ''1'',
                  Containers = [''a'' \<mapsto> spec_db\<lparr>depends_on := [''b'']\<rparr>,
                                ''b'' \<mapsto> spec_db\<lparr>depends_on := [''a'']\<rparr>,
                                ''c'' \<mapsto> spec_db],
                  Networks = Map.empty \<rparr>"

definition manager_cycle_missing :: Manager where
  "manager_cycle_missing =
     NewManager \<lparr> Version = ''1'',
                  Containers = [''a'' \<mapsto> spec_db\<lparr>depends_on := [''b'']\<rparr>,
                                ''b'' \<mapsto> spec_db\<lparr>depends_on := [''a'']\<rparr>,
                                ''c'' \<mapsto> spec_db\<lparr>image := ''/missing''\<rparr>],
                  Networks = Map.empty \<rparr>"

definition host_ok :: host where
  "host_ok =
     \<lparr> CreateBridge_ok = (\<lambda>bridgeName sub gw. True),
       container_world = (\<lambda>name. world_ok),
       Sscanf_port = (\<lambda>pm. None),
       range_networks = [],
       range_containers = (\<lambda>i. [''a'', ''b'', ''c'']),
       range_deps = [''web'', ''db''] \<rparr>"

text \<open>The deployment of \<^verbatim>\<open>a\<close> and \<^verbatim>\<open>b\<close> alone, depending on each other, and its host.\<close>

definition manager_a_b :: Manager where
  "manager_a_b =
     NewManager \<lparr> Version = ''1'',
                  Containers = [''a'' \<mapsto> spec_db\<lparr>depends_on := [''b'']\<rparr>,
                                ''b'' \<mapsto> spec_db\<lparr>depends_on := [''a'']\<rparr>],
                  Networks = Map.empty \<rparr>"

definition host_a_b :: host where
  "host_a_b = host_ok\<lparr>range_containers := (\<lambda>i. [''b'', ''a''])\<rparr>"

section \<open>Validation and identity: lemmas\<close>

lemma check_mounts_None:
  "check_mounts i ms = None \<longleftrightarrow> \<not> list_ex (\<lambda>m. Target m = '''') ms"
  by (induction ms arbitrary: i) auto

lemma ValidateConfig_None: "ValidateConfig w c = None \<longleftrightarrow> code_rules_hold w c"
  by (auto simp: ValidateConfig_def code_rules_hold_def check_mounts_None
      split: stat_result.splits)

lemma Split_nonempty: "Split s c \<noteq> []"
  by (induction s) (auto split: list.splits)

lemma Split_no_sep: "c \<notin> set s \<Longrightarrow> Split s c = [s]"
  by (induction s) (auto split: list.splits)

lemma Split_hd: "hd (Split s c) = takeWhile (\<lambda>x. x \<noteq> c) s"
  by (induction s) (auto split: list.splits simp: Split_nonempty)

lemma Split_sep:
  "c \<in> set s \<Longrightarrow>
   Split s c = takeWhile (\<lambda>x. x \<noteq> c) s # Split (tl (dropWhile (\<lambda>x. x \<noteq> c) s)) c"
  by (induction s) (auto split: list.splits simp: Split_nonempty)

lemma Split_second:
  assumes "c \<in> set s"
  shows "2 \<le> length (Split s c)"
    and "Split s c ! 1 = takeWhile (\<lambda>x. x \<noteq> c) (tl (dropWhile (\<lambda>x. x \<noteq> c) s))"
proof -
  let ?rest = "tl (dropWhile (\<lambda>x. x \<noteq> c) s)"
  obtain p ps where ps: "Split ?rest c = p # ps"
    using Split_nonempty[of ?rest c] by (cases "Split ?rest c") auto
  with Split_hd[of ?rest c] have "p = takeWhile (\<lambda>x. x \<noteq> c) ?rest" by simp
  with ps assms show "2 \<le> length (Split s c)"
    and "Split s c ! 1 = takeWhile (\<lambda>x. x \<noteq> c) ?rest"
    by (simp_all add: Split_sep)
qed

lemma shortID_no_sep: "CHR ''_'' \<notin> set kid \<Longrightarrow> shortID kid = kid"
  by (simp add: shortID_def Split_no_sep)

lemma shortID_sep:
  "CHR ''_'' \<in> set kid \<Longrightarrow>
   shortID kid =
     take 6 (takeWhile (\<lambda>x. x \<noteq> CHR ''_'') (tl (dropWhile (\<lambda>x. x \<noteq> CHR ''_'') kid)))"
  using Split_second[of "CHR ''_''" kid] by (simp add: shortID_def Let_def)

lemma world_ok_simps:
  "stat world_ok = (\<lambda>p. if p = ''/opt/rootfs'' then IsDir else NotExist)"
  "rand_byte world_ok = (\<lambda>i. of_nat (17 * i + 3))"
  "rand_source world_ok = 198"
  "parseIPv6 world_ok = (\<lambda>s. None)"
  "LinkAdd_ok world_ok" "Marshal_ok world_ok" "cmd_Start world_ok = Some 4242"
  "time_Now world_ok = 1000" "moveVeth_ok world_ok" "renameVeth_ok world_ok"
  "linkUp_ok world_ok" "configureHostVeth_ok world_ok" "addrAdd_ok world_ok"
  "routeAdd_ok world_ok" "addPortForward_ok world_ok = (\<lambda>pm. True)"
  "Signal_ok world_ok" "cmd_Wait world_ok = Exited0"
  by (simp_all add: world_ok_def)

lemma GenerateID_world_ok: "GenerateID world_ok ''kitten'' = ''kitten_031425364758697a''"
  by (simp add: GenerateID_def world_ok_simps hex_EncodeToString_def hextable_def upt_rec)

section \<open>Container handle: lemmas\<close>

lemma mutex_free_update: "\<not> mutex k \<Longrightarrow> k\<lparr>mutex := False\<rparr> = k"
  by (cases k) simp

lemma unlock_lock: "\<not> mutex k \<Longrightarrow> unlock (k\<lparr>mutex := True\<rparr>) = k"
  by (simp add: unlock_def mutex_free_update)

lemma Stop_locked: "mutex k \<Longrightarrow> Stop w k = Blocks"
  by (simp add: Stop_def)

lemma fail_after_Stop_locked: "mutex k \<Longrightarrow> fail_after_Stop w k = Blocks"
  by (simp add: fail_after_Stop_def Stop_locked)

lemma Start_finalize_locked:
  "mutex k \<Longrightarrow> Start_finalize w k = Returns (r, k') \<Longrightarrow> r = None \<and> k' = unlock k"
  by (auto simp: Start_finalize_def fail_after_Stop_locked split: if_splits option.splits)

lemma Start_network_frame:
  "Start_network w k = Returns (r, k1) \<Longrightarrow>
   state k1 = state k \<and> mutex k1 = mutex k \<and> pid k1 = pid k \<and> cmd k1 = cmd k \<and>
   (r \<noteq> None \<longrightarrow> k1 = k)"
  by (auto simp: Start_network_def Let_def split: if_splits sum.splits option.splits prod.splits)

lemma Start_refused:
  "\<not> mutex k \<Longrightarrow> state k \<noteq> StateCreated \<Longrightarrow> Start w k = Returns (Some AlreadyStarted, k)"
  by (simp add: Start_def Let_def unlock_lock)

lemma Stop_refused:
  "\<not> mutex k \<Longrightarrow> state k \<noteq> StateRunning \<Longrightarrow> Stop w k = Returns (Some NotRunning, k)"
  by (simp add: Stop_def Let_def unlock_lock)

lemma Start_result:
  assumes "Start w k = Returns (r, k')"
  shows "\<not> mutex k \<and> \<not> mutex k' \<and>
         (r = None \<longrightarrow> state k = StateCreated \<and> state k' = StateRunning \<and>
                        cmd_Start w = Some (pid k') \<and> cmd k' \<noteq> None) \<and>
         (r \<noteq> None \<longrightarrow> state k' = state k \<and> pid k' = pid k \<and> cmd k' = cmd k)"
proof -
  from assms have free: "\<not> mutex k" by (auto simp: Start_def split: if_splits)
  show ?thesis
  proof (cases "state k = StateCreated")
    case False
    with free assms show ?thesis by (auto simp: Start_refused)
  next
    case True
    let ?k = "k\<lparr>mutex := True\<rparr>"
    from assms free True obtain e k1 where net: "Start_network w ?k = Returns (e, k1)"
      by (cases "Start_network w ?k") (auto simp: Start_def Let_def)
    from Start_network_frame[OF net]
    have fr: "state k1 = state k" "mutex k1" "pid k1 = pid k" "cmd k1 = cmd k" by auto
    show ?thesis
    proof (cases e)
      case (Some err)
      with assms free True net fr show ?thesis
        by (auto simp: Start_def Let_def unlock_def)
    next
      case None
      show ?thesis
      proof (cases "Marshal_ok w \<and> stat w (RootFS (config k1)) \<noteq> NotExist \<and> cmd_Start w \<noteq> None")
        case False
        with assms free True net None fr show ?thesis
          by (auto simp: Start_def Let_def unlock_def cleanup_def split: if_splits option.splits)
      next
        case ok: True
        then obtain p where p: "cmd_Start w = Some p" by auto
        let ?k2 = "k1\<lparr> pid := p, cmd := Some \<lparr> child_config = config k1, Process = Some p \<rparr>,
                       state := StateRunning, startTime := time_Now w \<rparr>"
        from assms free True net None ok p
        have fin: "Start_finalize w ?k2 = Returns (r, k')"
          by (simp add: Start_def Let_def)
        have "mutex ?k2" using fr by simp
        from Start_finalize_locked[OF this fin] free True p show ?thesis
          by (simp add: unlock_def)
      qed
    qed
  qed
qed

lemma Wait_frame:
  "Wait w k = Returns (r, k') \<Longrightarrow>
   pid k' = pid k \<and> (cmd k = None \<longrightarrow> k' = k \<and> r = (0, Some NotStarted)) \<and>
   (cmd k \<noteq> None \<longrightarrow> state k' = StateStopped)"
  by (auto simp: Wait_def Let_def cleanup_def split: option.splits if_splits)

lemma Stop_frame:
  "Stop w k = Returns (r, k') \<Longrightarrow>
   pid k' = pid k \<and> (r = None \<longrightarrow> state k' = StateStopped) \<and> (r \<noteq> None \<longrightarrow> k' = k)"
  by (auto simp: Stop_def Let_def cleanup_def unlock_def mutex_free_update
      split: option.splits if_splits)

lemma NewKitten_fresh:
  "NewKitten w c = Inr k \<Longrightarrow>
   state k = StateCreated \<and> \<not> mutex k \<and> cmd k = None \<and> pid k = 0"
  by (auto simp: NewKitten_def Let_def split: option.splits if_splits)

lemma NewKitten_echo: "NewKitten world_ok config_echo = Inr kitten_echo"
  by (simp add: NewKitten_def ValidateConfig_def config_echo_def NewDefaultConfig_def
      PrepareDefaultMounts_def world_ok_simps GenerateID_world_ok kitten_echo_def)

lemma kitten_echo_simps:
  "state kitten_echo = StateCreated" "\<not> mutex kitten_echo" "cmd kitten_echo = None"
  "Net (Namespaces (config kitten_echo)) = False"
  "RootFS (config kitten_echo) = ''/opt/rootfs''"
  by (simp_all add: kitten_echo_def config_echo_def NewDefaultConfig_def)

lemma Start_echo_spawn_fails:
  "Start (world_ok\<lparr>cmd_Start := None\<rparr>) kitten_echo = Returns (Some SpawnFailed, kitten_echo)"
  by (simp add: Start_def Let_def Start_network_def kitten_echo_simps world_ok_simps cleanup_def unlock_lock)

lemma Start_echo: "Start world_ok kitten_echo = Returns (None, kitten_echo_running)"
  unfolding kitten_echo_running_def
  apply (simp add: Start_def Let_def Start_network_def kitten_echo_simps world_ok_simps cleanup_def Start_finalize_def)
  apply (simp add: kitten_echo_def unlock_def)
  done

lemma Wait_echo: "Wait world_ok kitten_echo_running = Returns ((0, None), kitten_echo_stopped)"
  by (simp add: Wait_def Let_def cleanup_def world_ok_simps kitten_echo_running_def
      kitten_echo_stopped_def kitten_echo_def)

lemma kitten_echo_stopped_simps:
  "state kitten_echo_stopped = StateStopped" "pid kitten_echo_stopped = 4242"
  by (simp_all add: kitten_echo_stopped_def kitten_echo_running_def)

lemma addPortForwards_all: "addPortForwards w pms = list_all (addPortForward_ok w) pms"
  by (induction pms) auto

lemma Start_all_ok:
  assumes "\<not> mutex k" "state k = StateCreated"
    "Net (Namespaces (config k))" "Network (config k) = Some nc"
    "LinkAdd w (''veth'' @ shortID (Kitten.ID k)) (''vethc'' @ shortID (Kitten.ID k))"
    "Marshal_ok w" "stat w (RootFS (config k)) \<noteq> NotExist" "cmd_Start w = Some p"
    "moveVeth_ok w" "renameVeth_ok w" "linkUp_ok w" "configureHostVeth_ok w" "addrAdd_ok w"
    "routeAdd_ok w" "list_all (addPortForward_ok w) (PortMappings nc)"
  shows "Start w k = Returns (None,
           k\<lparr> vethHost := ''veth'' @ shortID (Kitten.ID k),
              vethContainer := ''vethc'' @ shortID (Kitten.ID k),
              containerIP := allocateIP w (Subnet nc),
              config := (config k)\<lparr>Network := Some (nc\<lparr>ContainerIP := allocateIP w (Subnet nc)\<rparr>)\<rparr>,
              pid := p,
              cmd := Some \<lparr> child_config =
                               (config k)\<lparr>Network := Some (nc\<lparr>ContainerIP := allocateIP w (Subnet nc)\<rparr>)\<rparr>,
                            Process = Some p \<rparr>,
              state := StateRunning, startTime := time_Now w \<rparr>)"
  using assms
  by (simp add: Start_def Let_def Start_network_def createVethPair_def Start_finalize_def
      addPortForwards_all unlock_def mutex_free_update)

lemma ParseCIDR_no_prefix: "ParseCIDR w ''10.0.0.0'' = None"
  by (simp add: ParseCIDR_def)

lemma kitten_no_prefix_simps:
  "\<not> mutex kitten_no_prefix" "state kitten_no_prefix = StateCreated"
  "Net (Namespaces (config kitten_no_prefix))"
  "Network (config kitten_no_prefix) =
     Some \<lparr> Mode = ''bridge'', BridgeName = ''kitten0'', ContainerIP = '''',
            GatewayIP = ''10.0.0.1'', Subnet = ''10.0.0.0'', PortMappings = [] \<rparr>"
  "RootFS (config kitten_no_prefix) = ''/opt/rootfs''"
  by (simp_all add: kitten_no_prefix_def kitten_echo_def config_echo_def NewDefaultConfig_def)


lemma kitten_no_prefix_ID: "Kitten.ID kitten_no_prefix = ''kitten_031425364758697a''"
  by (simp add: kitten_no_prefix_def kitten_echo_def)

lemma shortID_generated: "shortID ''kitten_031425364758697a'' = ''031425''"
  by (simp add: shortID_def)
section \<open>IP allocator: lemmas\<close>

lemma parseIPv4_loop_length:
  "parseIPv4_loop s first prev_dot flds val digLen = Some bs \<Longrightarrow> length flds \<le> 3 \<Longrightarrow>
   length bs = 4"
proof (induction s first prev_dot flds val digLen rule: parseIPv4_loop.induct)
  case (1 first prev_dot flds val digLen)
  then show ?case by (auto split: if_splits)
next
  case (2 c cs first prev_dot flds val digLen)
  then show ?case by (auto simp: Let_def split: if_splits)
qed

lemma parseIPv4_length: "parseIPv4 s = Some bs \<Longrightarrow> length bs = 4"
  unfolding parseIPv4_def by (erule parseIPv4_loop_length) simp

lemma ParseAddr_scan_Addr4:
  "ParseAddr_scan w s t = Some (Addr4 bs) \<Longrightarrow> length bs = 4"
  by (induction t) (auto split: if_splits simp: parseIPv4_length)

lemma ParseAddr_scan_Addr6:
  "ParseAddr_scan w s t = Some (Addr6 bs z) \<Longrightarrow> length bs = 16"
  by (induction t) (auto split: if_splits)

lemma CIDRMask_loop_length: "length (CIDRMask_loop l n) = l"
  by (induction l n rule: CIDRMask_loop.induct) auto

lemma CIDRMask_length: "n \<le> bits \<Longrightarrow> bits = 32 \<or> bits = 128 \<Longrightarrow> length (CIDRMask n bits) = bits div 8"
  by (auto simp: CIDRMask_def CIDRMask_loop_length)

lemma four: "(4::nat) = Suc (Suc (Suc (Suc 0)))" by simp

lemma not_ff: "NOT (0xff :: byte) = 0"
  by simp

lemma CIDRMask_loop_zero: "CIDRMask_loop l 0 = replicate l 0"
  by (induction l) simp_all

lemma CIDRMask_24: 
  assumes "n \<le> 24" shows "\<exists>m0 m1 m2. CIDRMask n 32 = [m0, m1, m2, 0]"
proof -
  have c: "CIDRMask n 32 = CIDRMask_loop (Suc (Suc (Suc (Suc 0)))) n"
    using assms by (simp add: CIDRMask_def four)
  consider "n < 8" | "8 \<le> n" "n < 16" | "16 \<le> n" "n < 24" | "n = 24"
    using assms by linarith
  then show ?thesis
  proof cases
    case 1
    then show ?thesis unfolding c by (simp add: CIDRMask_loop_zero)
  next
    case 2
    then show ?thesis unfolding c by (simp add: CIDRMask_loop_zero)
  next
    case 3
    then show ?thesis unfolding c by (simp add: CIDRMask_loop_zero)
  next
    case 4
    then show ?thesis unfolding c by (simp add: CIDRMask_loop_zero)
  qed
qed

lemma length4E:
  assumes "length xs = 4"
  obtains a b c d where "xs = [a, b, c, d]"
  using assms by (auto simp: eval_nat_numeral length_Suc_conv)

text \<open>What a successful parse with a four-byte mask looks like.\<close>

lemma ParseCIDR_v4:
  assumes "ParseCIDR w s = Some ipn" "length (Mask ipn) = 4"
  shows "\<exists>a. length a = 4 \<and> IP ipn = map (\<lambda>(x, m). x AND m) (zip a (Mask ipn))"
proof -
  from assms(1) obtain ipAddr n where
    pa: "ParseAddr w (takeWhile (\<lambda>c. c \<noteq> CHR ''/'') s) = Some ipAddr"
    and n: "n \<le> BitLen ipAddr"
    and ipn: "ipn = \<lparr> IP = IP_Mask (As16 ipAddr) (CIDRMask n (BitLen ipAddr)),
                     Mask = CIDRMask n (BitLen ipAddr) \<rparr>"
    by (auto simp: ParseCIDR_def Let_def not_less split: if_splits option.splits prod.splits)
  show ?thesis
  proof (cases ipAddr)
    case (Addr4 bs)
    with pa have len: "length bs = 4"
      by (auto simp: ParseAddr_def dest: ParseAddr_scan_Addr4)
    from Addr4 n have ml: "length (CIDRMask n 32) = 4"
      by (simp add: CIDRMask_length)
    have "IP_Mask (v4InV6Prefix @ bs) (CIDRMask n 32) =
            map (\<lambda>(x, m). x AND m) (zip bs (CIDRMask n 32))"
      using len ml by (simp add: IP_Mask_def v4InV6Prefix_def)
    with Addr4 ipn len show ?thesis by auto
  next
    case (Addr6 bs z)
    with n have "length (CIDRMask n 128) = 16" by (simp add: CIDRMask_length)
    with Addr6 ipn assms(2) show ?thesis by simp
  qed
qed

lemma unat_alloc_octet:
  "unat (of_nat (Intn w 253 + 2) :: byte) = Intn w 253 + 2"
  "2 \<le> Intn w 253 + 2" "Intn w 253 + 2 \<le> 254"
proof -
  have "Intn w 253 < 253" by (simp add: Intn_def)
  then show "unat (of_nat (Intn w 253 + 2) :: byte) = Intn w 253 + 2"
    by (subst unat_of_nat) simp
  show "2 \<le> Intn w 253 + 2" by simp
  show "Intn w 253 + 2 \<le> 254" using \<open>Intn w 253 < 253\<close> by simp
qed

lemma CIDRMask_loop_4:
  "CIDRMask_loop 4 n = CIDRMask_loop (Suc (Suc (Suc (Suc 0)))) n"
  by (simp add: four)

lemma CIDRMask_30: "CIDRMask 30 32 = [255, 255, 255, 252]"
  by (simp add: CIDRMask_def CIDRMask_loop_4)

lemma CIDRMask_24': "CIDRMask 24 32 = [255, 255, 255, 0]"
  by (simp add: CIDRMask_def CIDRMask_loop_4)

lemma parseIPv4_10: "parseIPv4 ''10.0.0.0'' = Some [10, 0, 0, 0]"
  by (simp add: parseIPv4_def is_digit_def digit_val_def Let_def)

lemma dtoi_30: "dtoi ''30'' = (30, 2, True)"
  by (simp add: dtoi_def is_digit_def digit_val_def Let_def big_def)

lemma dtoi_24: "dtoi ''24'' = (24, 2, True)"
  by (simp add: dtoi_def is_digit_def digit_val_def Let_def big_def)

lemma ParseCIDR_slash30:
  "ParseCIDR w ''10.0.0.0/30'' = Some \<lparr> IP = [10, 0, 0, 0], Mask = [255, 255, 255, 252] \<rparr>"
  by (simp add: ParseCIDR_def ParseAddr_def parseIPv4_10 dtoi_30 CIDRMask_30 IP_Mask_def
      v4InV6Prefix_def)

lemma ParseCIDR_slash24:
  "ParseCIDR w ''10.0.0.0/24'' = Some \<lparr> IP = [10, 0, 0, 0], Mask = [255, 255, 255, 0] \<rparr>"
  by (simp add: ParseCIDR_def ParseAddr_def parseIPv4_10 dtoi_24 CIDRMask_24' IP_Mask_def
      v4InV6Prefix_def)

lemma Intn_world_ok: "Intn world_ok 253 = 198"
  by (simp add: Intn_def world_ok_simps)

lemma IP_String_200: "IP_String w [10, 0, 0, 200] = ''10.0.0.200''"
  by (simp add: IP_String_def itoa.simps char_of_def bit_0)

section \<open>Child environment: lemmas\<close>

lemma Setenv_other: "key' \<noteq> key \<Longrightarrow> Setenv key v env key' = env key'"
  by (simp add: Setenv_def)

lemma Setenv_same_cases: "Setenv key v env key = Some v \<or> Setenv key v env key = env key"
  by (simp add: Setenv_def)

lemma Setenv_accepted:
  "key \<noteq> [] \<Longrightarrow> CHR ''='' \<notin> set key \<Longrightarrow> NUL \<notin> set key \<Longrightarrow> NUL \<notin> set v \<Longrightarrow>
   Setenv key v env key = Some v"
  by (simp add: Setenv_def)

lemma apply_Env_keeps:
  "env key = Some v \<Longrightarrow> cenv key = Some v \<Longrightarrow> apply_Env cenv ks env key = Some v"
proof (induction ks arbitrary: env)
  case Nil
  then show ?case by simp
next
  case (Cons k ks)
  show ?case
  proof (cases "cenv k")
    case None
    with Cons show ?thesis by simp
  next
    case (Some v')
    have "Setenv k v' env key = Some v"
    proof (cases "k = key")
      case True
      with Some Cons.prems have "v' = v" by simp
      with True Cons.prems Setenv_same_cases[of key v env] show ?thesis by auto
    next
      case False
      with Cons.prems show ?thesis by (simp add: Setenv_other)
    qed
    then have "apply_Env cenv ks (Setenv k v' env) key = Some v"
      using Cons.prems(2) by (rule Cons.IH)
    with Some show ?thesis by simp
  qed
qed

lemma apply_Env_sets:
  assumes "key \<in> set ks" "cenv key = Some v"
    "key \<noteq> []" "CHR ''='' \<notin> set key" "NUL \<notin> set key" "NUL \<notin> set v"
  shows "apply_Env cenv ks env key = Some v"
  using assms(1)
proof (induction ks arbitrary: env)
  case Nil
  then show ?case by simp
next
  case (Cons k ks)
  show ?case
  proof (cases "k = key")
    case True
    have "Setenv key v env key = Some v" using assms by (simp add: Setenv_accepted)
    then have "apply_Env cenv ks (Setenv key v env) key = Some v"
      using assms(2) by (rule apply_Env_keeps)
    with True assms(2) show ?thesis by simp
  next
    case False
    with Cons.prems have "key \<in> set ks" by simp
    from Cons.IH[OF this] show ?thesis by (cases "cenv k") simp_all
  qed
qed

lemma name_ok:
  "''PATH'' \<noteq> []" "CHR ''='' \<notin> set ''PATH''" "NUL \<notin> set ''PATH''"
  "''HOME'' \<noteq> []" "CHR ''='' \<notin> set ''HOME''" "NUL \<notin> set ''HOME''"
  "NUL \<notin> set default_PATH" "NUL \<notin> set ''/root''" "default_PATH \<noteq> []"
  by (simp_all add: NUL_def default_PATH_def char_of_def)

lemma Getenv_Some: "key \<noteq> [] \<Longrightarrow> env key = Some v \<Longrightarrow> Getenv env key = v"
  by (simp add: Getenv_def)

section \<open>Stop order: lemmas\<close>

lemma dep_sorted_Nil: "dep_sorted deps []"
  by (simp add: dep_sorted_def)

lemma dep_sorted_snoc:
  assumes "dep_sorted deps names" "set (deps_of deps x) \<subseteq> set names"
  shows "dep_sorted deps (names @ [x])"
  unfolding dep_sorted_def
proof (intro allI impI)
  fix pre a post
  assume eq: "names @ [x] = pre @ a # post"
  show "set (deps_of deps a) \<subseteq> set pre"
  proof (cases post rule: rev_cases)
    case Nil
    with eq assms(2) show ?thesis by simp
  next
    case (snoc post' y)
    with eq have "names = pre @ a # post'" by simp
    with assms(1) show ?thesis by (simp add: dep_sorted_def)
  qed
qed

lemma visit_each_inv:
  assumes step: "\<And>d s s'. d \<in> set ds \<Longrightarrow> v d s = Some s' \<Longrightarrow> I s \<Longrightarrow>
                   I s' \<and> d \<in> set (snd s') \<and> (\<exists>new. snd s' = snd s @ new)"
    and run: "visit_each v ds s = Some s'" and inv: "I s"
  shows "I s' \<and> set ds \<subseteq> set (snd s') \<and> (\<exists>new. snd s' = snd s @ new)"
  using assms
proof (induction ds arbitrary: s)
  case Nil
  then show ?case by simp
next
  case (Cons d ds)
  from Cons.prems(2) obtain s1 where s1: "v d s = Some s1" and rest: "visit_each v ds s1 = Some s'"
    by (auto split: option.splits)
  from Cons.prems(1)[OF _ s1 Cons.prems(3)]
  have i1: "I s1" and d1: "d \<in> set (snd s1)" and e1: "\<exists>new. snd s1 = snd s @ new" by auto
  have "I s' \<and> set ds \<subseteq> set (snd s') \<and> (\<exists>new. snd s' = snd s1 @ new)"
  proof (rule Cons.IH[OF _ rest i1])
    fix d' t t'
    assume "d' \<in> set ds" "v d' t = Some t'" "I t"
    then show "I t' \<and> d' \<in> set (snd t') \<and> (\<exists>new. snd t' = snd t @ new)"
      using Cons.prems(1)[of d' t t'] by simp
  qed
  with d1 e1 show ?case by auto
qed

lemma visit_inv:
  assumes ac: "acyclic (dep_rel deps)"
  shows "visit fuel deps x s = Some s' \<Longrightarrow> dfs_inv deps S s \<Longrightarrow>
         (\<forall>t\<in>S. (x, t) \<notin> (dep_rel deps)\<^sup>*) \<Longrightarrow>
         dfs_inv deps S s' \<and> x \<in> set (snd s') \<and> (\<exists>new. snd s' = snd s @ new)"
proof (induction fuel arbitrary: x s s' S)
  case 0
  then show ?case by simp
next
  case (Suc fuel)
  obtain visited ord where s: "s = (visited, ord)" by (cases s)
  have xS: "x \<notin> S" using Suc.prems(3) by auto
  show ?case
  proof (cases "x \<in> set visited")
    case True
    with Suc.prems(1) s have "s' = s" by simp
    moreover from True Suc.prems(2) s xS have "x \<in> set ord" by (auto simp: dfs_inv_def)
    ultimately show ?thesis using Suc.prems(2) s by simp
  next
    case False
    with Suc.prems(1) s obtain visited' ord' where
      each: "visit_each (visit fuel deps) (deps_of deps x) (x # visited, ord) = Some (visited', ord')"
      and s': "s' = (visited', ord' @ [x])"
      by (auto split: option.splits)
    from Suc.prems(2) s False xS
    have inv1: "dfs_inv deps (insert x S) (x # visited, ord)"
      by (auto simp: dfs_inv_def)
    have "dfs_inv deps (insert x S) (visited', ord') \<and>
          set (deps_of deps x) \<subseteq> set (snd (visited', ord')) \<and>
          (\<exists>new. snd (visited', ord') = snd (x # visited, ord) @ new)"
    proof (rule visit_each_inv[where I = "dfs_inv deps (insert x S)" and v = "visit fuel deps",
            OF _ each inv1])
      fix d t t'
      assume d: "d \<in> set (deps_of deps x)" and run: "visit fuel deps d t = Some t'"
        and inv: "dfs_inv deps (insert x S) t"
      have xd: "(x, d) \<in> dep_rel deps" using d by (simp add: dep_rel_def)
      have "\<forall>u\<in>insert x S. (d, u) \<notin> (dep_rel deps)\<^sup>*"
      proof
        fix u assume u: "u \<in> insert x S"
        show "(d, u) \<notin> (dep_rel deps)\<^sup>*"
        proof
          assume du: "(d, u) \<in> (dep_rel deps)\<^sup>*"
          show False
          proof (cases "u = x")
            case True
            with xd du have "(x, x) \<in> (dep_rel deps)\<^sup>+" by (simp add: rtrancl_into_trancl2)
            with ac show False by (simp add: acyclic_def)
          next
            case False
            with u have "u \<in> S" by simp
            moreover from xd du have "(x, u) \<in> (dep_rel deps)\<^sup>*" by simp
            ultimately show False using Suc.prems(3) by blast
          qed
        qed
      qed
      from Suc.IH[OF run inv this]
      show "dfs_inv deps (insert x S) t' \<and> d \<in> set (snd t') \<and> (\<exists>new. snd t' = snd t @ new)" .
    qed
    then have inv2: "dfs_inv deps (insert x S) (visited', ord')"
      and sub: "set (deps_of deps x) \<subseteq> set ord'"
      and ext: "\<exists>new. ord' = ord @ new"
      by auto
    from inv2 have xo: "x \<notin> set ord'" by (auto simp: dfs_inv_def)
    from inv2 xo xS sub have "dfs_inv deps S (visited', ord' @ [x])"
      by (auto simp: dfs_inv_def dep_sorted_snoc)
    with s s' ext show ?thesis by auto
  qed
qed

lemma visit_each_total:
  assumes step: "\<And>d s. d \<in> set ds \<Longrightarrow> card (U - set (fst s)) < fuel \<Longrightarrow>
                   \<exists>s'. v d s = Some s' \<and> set (fst s) \<subseteq> set (fst s')"
    and fin: "finite U" and small: "card (U - set (fst s)) < fuel"
  shows "\<exists>s'. visit_each v ds s = Some s' \<and> set (fst s) \<subseteq> set (fst s')"
  using step small
proof (induction ds arbitrary: s)
  case Nil
  then show ?case by simp
next
  case (Cons d ds)
  from Cons.prems(1)[of d s] Cons.prems(2)
  obtain s1 where s1: "v d s = Some s1" and g1: "set (fst s) \<subseteq> set (fst s1)" by auto
  from g1 have "U - set (fst s1) \<subseteq> U - set (fst s)" by auto
  with fin have "card (U - set (fst s1)) \<le> card (U - set (fst s))"
    by (intro card_mono) auto
  with Cons.prems(2) have small1: "card (U - set (fst s1)) < fuel" by simp
  have "\<exists>s'. visit_each v ds s1 = Some s' \<and> set (fst s1) \<subseteq> set (fst s')"
  proof (rule Cons.IH[OF _ small1])
    fix d' and t :: dfs_state
    assume "d' \<in> set ds" "card (U - set (fst t)) < fuel"
    then show "\<exists>s'. v d' t = Some s' \<and> set (fst t) \<subseteq> set (fst s')"
      using Cons.prems(1)[of d' t] by simp
  qed
  with s1 g1 show ?case by auto
qed

lemma visit_total:
  assumes fin: "finite U" and closed: "\<forall>a\<in>U. set (deps_of deps a) \<subseteq> U"
  shows "x \<in> U \<Longrightarrow> card (U - set (fst s)) < fuel \<Longrightarrow>
         \<exists>s'. visit fuel deps x s = Some s' \<and> set (fst s) \<subseteq> set (fst s')"
proof (induction fuel arbitrary: x s)
  case 0
  then show ?case by simp
next
  case (Suc fuel)
  obtain visited ord where s: "s = (visited, ord)" by (cases s)
  show ?case
  proof (cases "x \<in> set visited")
    case True
    with s show ?thesis by simp
  next
    case False
    with Suc.prems(1) have "x \<in> U - set visited" by simp
    with fin have "card (U - set visited - {x}) < card (U - set visited)"
      by (intro card_Diff1_less) auto
    moreover have "U - set (x # visited) = U - set visited - {x}" by auto
    ultimately have small1: "card (U - set (fst (x # visited, ord))) < fuel"
      using Suc.prems(2) s by simp
    have "\<exists>s'. visit_each (visit fuel deps) (deps_of deps x) (x # visited, ord) = Some s' \<and>
               set (fst (x # visited, ord)) \<subseteq> set (fst s')"
    proof (rule visit_each_total[where U = U and fuel = fuel, OF _ fin small1])
      fix d and t :: dfs_state
      assume "d \<in> set (deps_of deps x)" "card (U - set (fst t)) < fuel"
      moreover from this(1) closed Suc.prems(1) have "d \<in> U" by auto
      ultimately show "\<exists>s'. visit fuel deps d t = Some s' \<and> set (fst t) \<subseteq> set (fst s')"
        using Suc.IH[of d t] by simp
    qed
    then obtain s2 where
      "visit_each (visit fuel deps) (deps_of deps x) (x # visited, ord) = Some s2"
      and "set (x # visited) \<subseteq> set (fst s2)" by auto
    with s False show ?thesis by (cases s2) auto
  qed
qed

lemma all_names_closed:
  assumes "set keys = dom deps"
  shows "\<forall>a\<in>set (all_names deps keys). set (deps_of deps a) \<subseteq> set (all_names deps keys)"
proof
  fix a assume "a \<in> set (all_names deps keys)"
  show "set (deps_of deps a) \<subseteq> set (all_names deps keys)"
  proof (cases "a \<in> set keys")
    case True
    then show ?thesis by (auto simp: all_names_def)
  next
    case False
    with assms have "deps a = None" by auto
    then show ?thesis by (simp add: deps_of_def)
  qed
qed

lemma visit_keys_total:
  assumes "set keys = dom deps"
  shows "\<exists>s'. visit_each (visit (Suc (length (all_names deps keys))) deps) keys ([], []) = Some s'"
proof -
  let ?U = "set (all_names deps keys)"
  let ?fuel = "Suc (length (all_names deps keys))"
  have fin: "finite ?U" by simp
  have "card ?U \<le> length (all_names deps keys)" by (rule card_length)
  then have small: "card (?U - set (fst ([] :: string list, [] :: string list))) < ?fuel" by simp
  have "\<exists>s'. visit_each (visit ?fuel deps) keys ([], []) = Some s' \<and>
             set (fst ([] :: string list, [] :: string list)) \<subseteq> set (fst s')"
  proof (rule visit_each_total[where U = ?U and fuel = ?fuel, OF _ fin small])
    fix d and t :: dfs_state
    assume "d \<in> set keys" "card (?U - set (fst t)) < ?fuel"
    moreover from this(1) have "d \<in> ?U" by (simp add: all_names_def)
    ultimately show "\<exists>s'. visit ?fuel deps d t = Some s' \<and> set (fst t) \<subseteq> set (fst s')"
      using visit_total[OF fin all_names_closed[OF assms], of d t ?fuel] by simp
  qed
  then show ?thesis by auto
qed

lemma reverse_loop_nth:
  "j < length xs \<Longrightarrow>
   length (reverse_loop i j xs) = length xs \<and>
   (\<forall>k<length xs. reverse_loop i j xs ! k =
        (if i \<le> k \<and> k \<le> j then xs ! (i + j - k) else xs ! k))"
proof (induction i j xs rule: reverse_loop.induct)
  case (1 i j xs)
  show ?case
  proof (cases "i < j")
    case False
    then have "reverse_loop i j xs = xs" by (subst reverse_loop.simps) simp
    moreover have "\<forall>k. i \<le> k \<and> k \<le> j \<longrightarrow> i + j - k = k" using False by auto
    ultimately show ?thesis by auto
  next
    case True
    let ?ys = "xs[i := xs ! j, j := xs ! i]"
    have unf: "reverse_loop i j xs = reverse_loop (i + 1) (j - 1) ?ys"
      using True by (subst reverse_loop.simps) simp
    have "j - 1 < length ?ys" using "1.prems" by simp
    from "1.IH"[OF True this]
    have len: "length (reverse_loop (i + 1) (j - 1) ?ys) = length xs"
      and nth: "\<And>k. k < length xs \<Longrightarrow> reverse_loop (i + 1) (j - 1) ?ys ! k =
                  (if i + 1 \<le> k \<and> k \<le> j - 1 then ?ys ! (i + 1 + (j - 1) - k) else ?ys ! k)"
      by auto
    have "\<forall>k<length xs. reverse_loop (i + 1) (j - 1) ?ys ! k =
            (if i \<le> k \<and> k \<le> j then xs ! (i + j - k) else xs ! k)"
    proof (intro allI impI)
      fix k assume k: "k < length xs"
      consider "k = i" | "k = j" | "i < k" "k < j" | "k < i" | "j < k" using True by linarith
      then show "reverse_loop (i + 1) (j - 1) ?ys ! k =
                   (if i \<le> k \<and> k \<le> j then xs ! (i + j - k) else xs ! k)"
      proof cases
        case 1
        with nth[OF k] True "1.prems" show ?thesis by simp
      next
        case 2
        from True have "\<not> j \<le> j - 1" by simp
        with 2 nth[OF k] True "1.prems" show ?thesis by simp
      next
        case 3
        then have a: "i + 1 \<le> k \<and> k \<le> j - 1" and b: "i \<le> k \<and> k \<le> j"
          and m: "i + 1 + (j - 1) - k = i + j - k"
          and neq: "i + j - k \<noteq> i" "i + j - k \<noteq> j"
          by auto
        from nth[OF k] have "reverse_loop (i + 1) (j - 1) ?ys ! k = ?ys ! (i + 1 + (j - 1) - k)"
          by (simp only: a simp_thms if_True)
        also have "\<dots> = ?ys ! (i + j - k)" by (simp only: m)
        also have "\<dots> = xs ! (i + j - k)" using neq by simp
        finally show ?thesis by (simp only: b simp_thms if_True)
      next
        case 4
        with nth[OF k] True show ?thesis by simp
      next
        case 5
        then have "\<not> k \<le> j - 1" by simp
        with 5 nth[OF k] True show ?thesis by simp
      qed
    qed
    with len unf show ?thesis by simp
  qed
qed

lemma reverse_rev: "reverse xs = rev xs"
proof (cases "xs = []")
  case True
  then show ?thesis by (simp add: reverse_def reverse_loop.simps)
next
  case False
  then have j: "length xs - 1 < length xs" by simp
  from reverse_loop_nth[OF j, of 0]
  have len: "length (reverse xs) = length xs"
    and nth: "\<And>k. k < length xs \<Longrightarrow> reverse xs ! k = xs ! (length xs - 1 - k)"
    by (auto simp: reverse_def)
  show ?thesis
  proof (rule nth_equalityI)
    show "length (reverse xs) = length (rev xs)" using len by simp
    fix k assume "k < length (reverse xs)"
    with len have "k < length xs" by simp
    with nth[OF this] show "reverse xs ! k = rev xs ! k" by (simp add: rev_nth)
  qed
qed

lemma dom_buildDependencyGraph: "dom (buildDependencyGraph m) = dom (Containers (mconfig m))"
  by (auto simp: buildDependencyGraph_def split: option.splits)

lemma deps_of_buildDependencyGraph:
  "Containers (mconfig m) name = Some spec \<Longrightarrow>
   deps_of (buildDependencyGraph m) name = depends_on spec"
  by (simp add: deps_of_def buildDependencyGraph_def)

lemma getStopOrder_sorted:
  assumes keys: "set keys = dom deps" and ac: "acyclic (dep_rel deps)"
  shows "\<exists>ord. getStopOrder deps keys = Some (rev ord) \<and> distinct ord \<and>
               set keys \<subseteq> set ord \<and> dep_sorted deps ord"
proof -
  let ?fuel = "Suc (length (all_names deps keys))"
  from visit_keys_total[OF keys] obtain s' where
    run: "visit_each (visit ?fuel deps) keys ([], []) = Some s'" by blast
  have inv0: "dfs_inv deps {} ([], [])" by (simp add: dfs_inv_def dep_sorted_Nil)
  have "dfs_inv deps {} s' \<and> set keys \<subseteq> set (snd s') \<and>
        (\<exists>new. snd s' = snd ([] :: string list, [] :: string list) @ new)"
  proof (rule visit_each_inv[where I = "dfs_inv deps {}" and v = "visit ?fuel deps",
          OF _ run inv0])
    fix d and t t' :: dfs_state
    assume "d \<in> set keys" "visit ?fuel deps d t = Some t'" "dfs_inv deps {} t"
    then show "dfs_inv deps {} t' \<and> d \<in> set (snd t') \<and> (\<exists>new. snd t' = snd t @ new)"
      using visit_inv[OF ac, of ?fuel d t t' "{}"] by simp
  qed
  then have "distinct (snd s')" "set keys \<subseteq> set (snd s')" "dep_sorted deps (snd s')"
    by (auto simp: dfs_inv_def)
  moreover from run have "getStopOrder deps keys = Some (rev (snd s'))"
    by (cases s') (simp add: getStopOrder_def reverse_rev)
  ultimately show ?thesis by blast
qed

lemma manager_web_db_simps:
  "Containers (mconfig manager_web_db) =
     [''web'' \<mapsto> spec_db\<lparr>depends_on := [''db'']\<rparr>, ''db'' \<mapsto> spec_db]"
  by (simp add: manager_web_db_def NewManager_def)

lemma dep_rel_web_db: "dep_rel (buildDependencyGraph manager_web_db) = {(''web'', ''db'')}"
  by (auto simp: dep_rel_def deps_of_def buildDependencyGraph_def manager_web_db_simps
      spec_db_def split: option.splits if_splits)

lemma host_ok_simps:
  "range_deps host_ok = [''web'', ''db'']" "range_networks host_ok = []"
  "range_containers host_ok = (\<lambda>i. [''a'', ''b'', ''c''])"
  "container_world host_ok = (\<lambda>name. world_ok)"
  by (simp_all add: host_ok_def)

lemma getStopOrder_web_db:
  "getStopOrder (buildDependencyGraph manager_web_db) [''web'', ''db''] = Some [''web'', ''db'']"
  by (simp add: getStopOrder_def all_names_def deps_of_def buildDependencyGraph_def
      manager_web_db_simps spec_db_def reverse_rev)

section \<open>Manager.Start: lemmas\<close>

subsection \<open>A dependency-sorted list of all containers rules out cycles and missing names\<close>

lemma first_pos_less: "b \<in> set pre \<Longrightarrow> first_pos b (pre @ rest) < length pre"
  by (induction pre) (auto simp: first_pos_def)

lemma first_pos_split: "a \<notin> set pre \<Longrightarrow> first_pos a (pre @ a # post) = length pre"
  by (induction pre) (auto simp: first_pos_def)

lemma dep_sorted_step:
  assumes "dep_sorted deps st" "a \<in> set st" "(a, b) \<in> dep_rel deps"
  shows "b \<in> set st \<and> first_pos b st < first_pos a st"
proof -
  from assms(2) obtain pre post where st: "st = pre @ a # post" and a: "a \<notin> set pre"
    by (auto dest: split_list_first)
  with assms(1) have "set (deps_of deps a) \<subseteq> set pre" by (simp add: dep_sorted_def)
  with assms(3) have b: "b \<in> set pre" by (auto simp: dep_rel_def)
  from first_pos_less[OF b, of "a # post"] first_pos_split[OF a, of post] st b
  show ?thesis by auto
qed

lemma dep_sorted_trancl:
  assumes "dep_sorted deps st" "(a, b) \<in> (dep_rel deps)\<^sup>+" "a \<in> set st"
  shows "b \<in> set st \<and> first_pos b st < first_pos a st"
  using assms(2)
proof (induction rule: trancl_induct)
  case (base y)
  with assms(1,3) show ?case by (simp add: dep_sorted_step)
next
  case (step y z)
  from step.IH have "y \<in> set st" by simp
  from dep_sorted_step[OF assms(1) this step.hyps(2)] step.IH show ?case by simp
qed

lemma dep_rel_dom: "(a, b) \<in> dep_rel deps \<Longrightarrow> a \<in> dom deps"
  by (cases "deps a") (auto simp: dep_rel_def deps_of_def)

lemma all_started_good:
  assumes sorted: "dep_sorted deps st" and all: "set st = dom deps"
  shows "acyclic (dep_rel deps) \<and> (\<forall>a b. (a, b) \<in> dep_rel deps \<longrightarrow> b \<in> dom deps)"
proof
  show "acyclic (dep_rel deps)"
    unfolding acyclic_def
  proof (intro allI notI)
    fix x assume c: "(x, x) \<in> (dep_rel deps)\<^sup>+"
    then obtain y where "(x, y) \<in> dep_rel deps" by (auto dest: tranclD)
    then have "x \<in> set st" using all by (auto dest: dep_rel_dom)
    from dep_sorted_trancl[OF sorted c this] show False by simp
  qed
  show "\<forall>a b. (a, b) \<in> dep_rel deps \<longrightarrow> b \<in> dom deps"
  proof (intro allI impI)
    fix a b assume ab: "(a, b) \<in> dep_rel deps"
    then have "a \<in> set st" using all by (auto dest: dep_rel_dom)
    from dep_sorted_step[OF sorted this ab] all show "b \<in> dom deps" by simp
  qed
qed

lemma buildDependencyGraph_cong:
  "mconfig m' = mconfig m \<Longrightarrow> buildDependencyGraph m' = buildDependencyGraph m"
  by (simp add: buildDependencyGraph_def)

lemma cannot_finish:
  assumes bad: "cyclic_or_missing m" and fin: "finite (dom (Containers (mconfig m)))"
    and sub: "set st \<subseteq> dom (Containers (mconfig m))"
    and sorted: "dep_sorted (buildDependencyGraph m) st"
  shows "card (set st) < card (dom (Containers (mconfig m)))"
proof -
  have "set st \<noteq> dom (Containers (mconfig m))"
  proof
    assume "set st = dom (Containers (mconfig m))"
    then have "set st = dom (buildDependencyGraph m)" by (simp add: dom_buildDependencyGraph)
    from all_started_good[OF sorted this] bad show False
      by (auto simp: cyclic_or_missing_def dom_buildDependencyGraph)
  qed
  with sub have "set st \<subset> dom (Containers (mconfig m))" by auto
  with fin show ?thesis by (rule psubset_card_mono)
qed

subsection \<open>What a pass of the scan preserves\<close>

lemma Start_pass_sorted:
  "Start_pass h names m st pr = Returns (e, m', st', pr') \<Longrightarrow>
   set st \<subseteq> dom (Containers (mconfig m)) \<Longrightarrow> dep_sorted (buildDependencyGraph m) st \<Longrightarrow>
   set st' \<subseteq> dom (Containers (mconfig m)) \<and> dep_sorted (buildDependencyGraph m) st'"
proof (induction names arbitrary: m st pr)
  case Nil
  then show ?case by simp
next
  case (Cons name rest)
  show ?case
  proof (cases "Containers (mconfig m) name")
    case None
    with Cons.prems(1) have "Start_pass h rest m st pr = Returns (e, m', st', pr')" by simp
    from Cons.IH[OF this Cons.prems(2,3)] show ?thesis .
  next
    case (Some spec)
    show ?thesis
    proof (cases "name \<notin> set st \<and> list_all (\<lambda>dep. dep \<in> set st) (depends_on spec)")
      case False
      with Cons.prems(1) Some have "Start_pass h rest m st pr = Returns (e, m', st', pr')"
        by (auto split: if_splits)
      from Cons.IH[OF this Cons.prems(2,3)] show ?thesis .
    next
      case True
      show ?thesis
      proof (cases "startContainer h m name spec")
        case (Returns r)
        obtain e1 m1 where r: "r = (e1, m1)" by (cases r)
        have mc: "mconfig m1 = mconfig m" using startContainer_mconfig Returns r by blast
        show ?thesis
        proof (cases e1)
          case None
          with Cons.prems(1) Some True Returns r
          have run: "Start_pass h rest m1 (st @ [name]) True = Returns (e, m', st', pr')"
            by simp
          have sub: "set (st @ [name]) \<subseteq> dom (Containers (mconfig m1))"
            using Cons.prems(2) Some mc by auto
          have "set (deps_of (buildDependencyGraph m) name) \<subseteq> set st"
            using True Some by (auto simp: deps_of_buildDependencyGraph list_all_iff)
          with Cons.prems(3) have "dep_sorted (buildDependencyGraph m) (st @ [name])"
            by (rule dep_sorted_snoc)
          then have "dep_sorted (buildDependencyGraph m1) (st @ [name])"
            by (simp only: buildDependencyGraph_cong[OF mc])
          from Cons.IH[OF run sub this] show ?thesis
            by (simp only: buildDependencyGraph_cong[OF mc] mc)
        next
          case (Some err)
          with Cons.prems \<open>Containers (mconfig m) name = Some spec\<close> True Returns r
          show ?thesis by auto
        qed
      next
        case Blocks
        with Cons.prems(1) Some True show ?thesis by simp
      next
        case Panics
        with Cons.prems(1) Some True show ?thesis by simp
      qed
    qed
  qed
qed

lemma startContainer_networks:
  "startContainer h m name spec = Returns (err, m') \<Longrightarrow> networks m' = networks m"
  by (auto simp: startContainer_def split: sum.splits outcome.splits option.splits)

lemma Start_pass_networks:
  "Start_pass h names m st pr = Returns (e, m', st', pr') \<Longrightarrow> networks m' = networks m"
proof (induction names arbitrary: m st pr)
  case Nil
  then show ?case by simp
next
  case (Cons name rest)
  show ?case
  proof (cases "Containers (mconfig m) name")
    case None
    with Cons.prems have "Start_pass h rest m st pr = Returns (e, m', st', pr')" by simp
    from Cons.IH[OF this] show ?thesis .
  next
    case (Some spec)
    show ?thesis
    proof (cases "name \<notin> set st \<and> list_all (\<lambda>dep. dep \<in> set st) (depends_on spec)")
      case False
      with Cons.prems Some have "Start_pass h rest m st pr = Returns (e, m', st', pr')"
        by (auto split: if_splits)
      from Cons.IH[OF this] show ?thesis .
    next
      case True
      show ?thesis
      proof (cases "startContainer h m name spec")
        case (Returns r)
        obtain e1 m1 where r: "r = (e1, m1)" by (cases r)
        have nw: "networks m1 = networks m" using startContainer_networks Returns r by blast
        show ?thesis
        proof (cases e1)
          case None
          with Cons.prems Some True Returns r
          have "Start_pass h rest m1 (st @ [name]) True = Returns (e, m', st', pr')"
            by simp
          from Cons.IH[OF this] nw show ?thesis by simp
        next
          case (Some err)
          with Cons.prems \<open>Containers (mconfig m) name = Some spec\<close> True Returns r nw
          show ?thesis by auto
        qed
      next
        case Blocks
        with Cons.prems Some True show ?thesis by simp
      next
        case Panics
        with Cons.prems Some True show ?thesis by simp
      qed
    qed
  qed
qed

lemma Start_pass_succeeds:
  assumes ok: "starts_succeed h m0"
  shows "mconfig m = mconfig m0 \<Longrightarrow> networks m = networks m0 \<Longrightarrow>
         \<exists>m' st' pr'. Start_pass h names m st pr = Returns (None, m', st', pr')"
proof (induction names arbitrary: m st pr)
  case Nil
  then show ?case by simp
next
  case (Cons name rest)
  show ?case
  proof (cases "Containers (mconfig m) name")
    case None
    with Cons.IH[OF Cons.prems] show ?thesis by simp
  next
    case (Some spec)
    show ?thesis
    proof (cases "name \<notin> set st \<and> list_all (\<lambda>dep. dep \<in> set st) (depends_on spec)")
      case False
      with Cons.IH[OF Cons.prems, of st pr] Some show ?thesis by auto
    next
      case True
      from Some Cons.prems have "Containers (mconfig m0) name = Some spec" by simp
      with ok Cons.prems have "\<exists>m2. startContainer h m name spec = Returns (None, m2)"
        unfolding starts_succeed_def by blast
      then obtain m2 where sc: "startContainer h m name spec = Returns (None, m2)" ..
      have c2: "mconfig m2 = mconfig m0"
        using startContainer_mconfig[OF sc] Cons.prems(1) by simp
      have n2: "networks m2 = networks m0"
        using startContainer_networks[OF sc] Cons.prems(2) by simp
      from Cons.IH[OF c2 n2, of "st @ [name]" True] Some True sc show ?thesis by simp
    qed
  qed
qed

lemma cyclic_or_missing_cong:
  "mconfig m = mconfig m0 \<Longrightarrow> cyclic_or_missing m = cyclic_or_missing m0"
  by (simp add: cyclic_or_missing_def buildDependencyGraph_def)

lemma Start_loop_not_done:
  assumes bad: "cyclic_or_missing m0" and fin: "finite (dom (Containers (mconfig m0)))"
  shows "mconfig m = mconfig m0 \<Longrightarrow> set st \<subseteq> dom (Containers (mconfig m)) \<Longrightarrow>
         dep_sorted (buildDependencyGraph m) st \<Longrightarrow>
         Start_loop h i m st \<noteq> Returns (None, mr)"
proof (induction h i m st rule: Start_loop.induct)
  case (1 h i m st)
  have bad': "cyclic_or_missing m"
    using bad cyclic_or_missing_cong[OF "1.prems"(1)] by simp
  have fin': "finite (dom (Containers (mconfig m)))" using fin "1.prems"(1) by simp
  from cannot_finish[OF bad' fin' "1.prems"(2,3)]
  have lt: "card (set st) < card (dom (Containers (mconfig m)))" .
  show ?case
  proof (cases "Start_pass h (range_containers h i) m st False")
    case Blocks
    with lt show ?thesis by (subst Start_loop.simps) simp
  next
    case Panics
    with lt show ?thesis by (subst Start_loop.simps) simp
  next
    case (Returns r)
    obtain e m' st' pr' where r: "r = (e, m', st', pr')" by (cases r) auto
    with Returns have pass:
      "Start_pass h (range_containers h i) m st False = Returns (e, m', st', pr')" by simp
    show ?thesis
    proof (cases e)
      case (Some err)
      with lt pass show ?thesis by (subst Start_loop.simps) simp
    next
      case None
      note e = this
      show ?thesis
      proof (cases pr')
        case False
        with lt pass e show ?thesis by (subst Start_loop.simps) simp
      next
        case True
        from pass e have pass0:
          "Start_pass h (range_containers h i) m st False = Returns (None, m', st', pr')"
          by simp
        from Start_pass_grows[OF pass] have mc: "mconfig m' = mconfig m" by simp
        from Start_pass_sorted[OF pass "1.prems"(2,3)]
        have inv: "set st' \<subseteq> dom (Containers (mconfig m'))"
          "dep_sorted (buildDependencyGraph m') st'"
          by (simp_all only: buildDependencyGraph_cong[OF mc] mc)
        from mc "1.prems"(1) have mc0: "mconfig m' = mconfig m0" by simp
        from True have nn: "\<not> \<not> pr'" by simp
        have "Start_loop h (Suc i) m' st' \<noteq> Returns (None, mr)"
          by (rule "1.IH"[OF lt pass0 refl refl refl refl nn mc0 inv])
        with lt pass0 True show ?thesis by (subst Start_loop.simps) simp
      qed
    qed
  qed
qed

lemma Start_loop_circular:
  assumes bad: "cyclic_or_missing m0" and fin: "finite (dom (Containers (mconfig m0)))"
  shows "starts_succeed h m0 \<Longrightarrow> mconfig m = mconfig m0 \<Longrightarrow> networks m = networks m0 \<Longrightarrow>
         set st \<subseteq> dom (Containers (mconfig m)) \<Longrightarrow>
         dep_sorted (buildDependencyGraph m) st \<Longrightarrow>
         \<exists>m'. Start_loop h i m st = Returns (Some CircularOrMissingDependency, m')"
proof (induction h i m st rule: Start_loop.induct)
  case (1 h i m st)
  have bad': "cyclic_or_missing m"
    using bad cyclic_or_missing_cong[OF "1.prems"(2)] by simp
  have fin': "finite (dom (Containers (mconfig m)))" using fin "1.prems"(2) by simp
  from cannot_finish[OF bad' fin' "1.prems"(4,5)]
  have lt: "card (set st) < card (dom (Containers (mconfig m)))" .
  from Start_pass_succeeds[OF "1.prems"(1,2,3), of "range_containers h i" st False]
  obtain m' st' pr' where
    pass: "Start_pass h (range_containers h i) m st False = Returns (None, m', st', pr')"
    by blast
  show ?case
  proof (cases pr')
    case False
    with lt pass show ?thesis by (subst Start_loop.simps) simp
  next
    case True
    from Start_pass_grows[OF pass] have mc: "mconfig m' = mconfig m" by simp
    from Start_pass_networks[OF pass] "1.prems"(3) have nw0: "networks m' = networks m0"
      by simp
    from Start_pass_sorted[OF pass "1.prems"(4,5)]
    have inv: "set st' \<subseteq> dom (Containers (mconfig m'))"
      "dep_sorted (buildDependencyGraph m') st'"
      by (simp_all only: buildDependencyGraph_cong[OF mc] mc)
    from mc "1.prems"(2) have mc0: "mconfig m' = mconfig m0" by simp
    from True have nn: "\<not> \<not> pr'" by simp
    have "\<exists>m''. Start_loop h (Suc i) m' st' = Returns (Some CircularOrMissingDependency, m'')"
      by (rule "1.IH"[OF lt pass refl refl refl refl nn "1.prems"(1) mc0 nw0 inv])
    with lt pass True show ?thesis by (subst Start_loop.simps) simp
  qed
qed

subsection \<open>Networks, idle passes and the errors of the loop\<close>

lemma createNetworks_loop_error:
  "createNetworks_loop h specs names nets = (e, nets') \<Longrightarrow>
   e = None \<or> e = Some CreateNetworksFailed"
proof (induction names arbitrary: nets)
  case Nil
  then show ?case by simp
next
  case (Cons name rest)
  show ?case
  proof (cases "specs name")
    case None
    with Cons.prems have "createNetworks_loop h specs rest nets = (e, nets')" by simp
    from Cons.IH[OF this] show ?thesis .
  next
    case (Some spec)
    show ?thesis
    proof (cases "driver spec = ''bridge'' \<and>
                  \<not> CreateBridge_ok h ''kitten0'' (subnet spec) (gateway spec)")
      case True
      with Cons.prems Some show ?thesis by (simp add: Let_def)
    next
      case False
      with Cons.prems Some obtain nets1 where
        "createNetworks_loop h specs rest nets1 = (e, nets')"
        by (auto simp: Let_def split: if_splits)
      from Cons.IH[OF this] show ?thesis .
    qed
  qed
qed

lemma createNetworks_frame:
  assumes "createNetworks h m = (e, m1)"
  shows "mconfig m1 = mconfig m \<and> containers m1 = containers m \<and>
         (e = None \<or> e = Some CreateNetworksFailed)"
proof -
  obtain e0 nets where l:
    "createNetworks_loop h (Networks (mconfig m)) (range_networks h) (networks m) = (e0, nets)"
    by (cases "createNetworks_loop h (Networks (mconfig m)) (range_networks h) (networks m)")
  with assms have "e = e0" "m1 = m\<lparr>networks := nets\<rparr>" by (simp_all add: createNetworks_def)
  with createNetworks_loop_error[OF l] show ?thesis by simp
qed

lemma Start_pass_idle:
  assumes "\<forall>name spec. Containers (mconfig m) name = Some spec \<longrightarrow> depends_on spec \<noteq> []"
  shows "Start_pass h names m [] pr = Returns (None, m, [], pr)"
proof (induction names)
  case Nil
  show ?case by simp
next
  case (Cons name rest)
  show ?case
  proof (cases "Containers (mconfig m) name")
    case None
    with Cons show ?thesis by simp
  next
    case (Some spec)
    with assms have "depends_on spec \<noteq> []" by blast
    then have "\<not> list_all (\<lambda>dep. dep \<in> set []) (depends_on spec)"
      by (cases "depends_on spec") simp_all
    with Cons Some show ?thesis by simp
  qed
qed

lemma Manager_Start_two_cycle:
  assumes two: "Containers (mconfig m) = [A \<mapsto> sa, B \<mapsto> sb]" and ne: "A \<noteq> B"
    and ab: "B \<in> set (depends_on sa)" and ba: "A \<in> set (depends_on sb)"
  shows "\<exists>e m'. Manager_Start h m = Returns (Some e, m') \<and> containers m' = containers m \<and>
                 (e = CircularOrMissingDependency \<or> e = CreateNetworksFailed) \<and>
                 (fst (createNetworks h m) = None \<longrightarrow> e = CircularOrMissingDependency)"
proof -
  obtain e0 m1 where cn: "createNetworks h m = (e0, m1)" by (cases "createNetworks h m")
  from createNetworks_frame[OF cn]
  have mc: "mconfig m1 = mconfig m" and ct: "containers m1 = containers m"
    and e0: "e0 = None \<or> e0 = Some CreateNetworksFailed" by simp_all
  show ?thesis
  proof (cases e0)
    case (Some err)
    with e0 cn ct show ?thesis by (simp add: Manager_Start_def)
  next
    case None
    have idle: "\<forall>name spec. Containers (mconfig m1) name = Some spec \<longrightarrow> depends_on spec \<noteq> []"
      using two ab ba mc by (auto split: if_splits)
    have pass: "Start_pass h (range_containers h 0) m1 [] False = Returns (None, m1, [], False)"
      by (rule Start_pass_idle[OF idle])
    have "dom (Containers (mconfig m1)) = {A, B}" using two mc by auto
    with ne have "card (set ([] :: string list)) < card (dom (Containers (mconfig m1)))"
      by simp
    with pass have "Start_loop h 0 m1 [] = Returns (Some CircularOrMissingDependency, m1)"
      by (subst Start_loop.simps) simp
    with None cn ct show ?thesis by (simp add: Manager_Start_def)
  qed
qed

lemma Start_pass_error:
  "Start_pass h names m st pr = Returns (Some e, m', st', pr') \<Longrightarrow>
   \<exists>name err. e = ContainerStartFailed name err"
proof (induction names arbitrary: m st pr)
  case Nil
  then show ?case by simp
next
  case (Cons name rest)
  show ?case
  proof (cases "Containers (mconfig m) name")
    case None
    with Cons.prems have "Start_pass h rest m st pr = Returns (Some e, m', st', pr')" by simp
    from Cons.IH[OF this] show ?thesis .
  next
    case (Some spec)
    show ?thesis
    proof (cases "name \<notin> set st \<and> list_all (\<lambda>dep. dep \<in> set st) (depends_on spec)")
      case False
      with Cons.prems Some have "Start_pass h rest m st pr = Returns (Some e, m', st', pr')"
        by (auto split: if_splits)
      from Cons.IH[OF this] show ?thesis .
    next
      case True
      show ?thesis
      proof (cases "startContainer h m name spec")
        case (Returns r)
        obtain e1 m1 where r: "r = (e1, m1)" by (cases r)
        show ?thesis
        proof (cases e1)
          case None
          with Cons.prems Some True Returns r
          have "Start_pass h rest m1 (st @ [name]) True = Returns (Some e, m', st', pr')"
            by simp
          from Cons.IH[OF this] show ?thesis .
        next
          case (Some err)
          with Cons.prems \<open>Containers (mconfig m) name = Some spec\<close> True Returns r
          show ?thesis by auto
        qed
      next
        case Blocks
        with Cons.prems Some True show ?thesis by simp
      next
        case Panics
        with Cons.prems Some True show ?thesis by simp
      qed
    qed
  qed
qed

lemma Start_loop_error:
  "Start_loop h i m st = Returns (Some e, mr) \<Longrightarrow>
   e = CircularOrMissingDependency \<or> (\<exists>name err. e = ContainerStartFailed name err)"
proof (induction h i m st rule: Start_loop.induct)
  case (1 h i m st)
  show ?case
  proof (cases "card (set st) < card (dom (Containers (mconfig m)))")
    case False
    with "1.prems" show ?thesis by (subst (asm) Start_loop.simps) simp
  next
    case lt: True
    show ?thesis
    proof (cases "Start_pass h (range_containers h i) m st False")
      case Blocks
      with lt "1.prems" show ?thesis by (subst (asm) Start_loop.simps) simp
    next
      case Panics
      with lt "1.prems" show ?thesis by (subst (asm) Start_loop.simps) simp
    next
      case (Returns r)
      obtain e1 m' st' pr' where r: "r = (e1, m', st', pr')" by (cases r) auto
      with Returns have pass:
        "Start_pass h (range_containers h i) m st False = Returns (e1, m', st', pr')" by simp
      show ?thesis
      proof (cases e1)
        case (Some err)
        with pass have p: "Start_pass h (range_containers h i) m st False =
                             Returns (Some err, m', st', pr')" by simp
        from "1.prems" lt p have "e = err" by (subst (asm) Start_loop.simps) simp
        with Start_pass_error[OF p] show ?thesis by simp
      next
        case None
        with pass have pass0:
          "Start_pass h (range_containers h i) m st False = Returns (None, m', st', pr')"
          by simp
        show ?thesis
        proof (cases pr')
          case False
          with "1.prems" lt pass0 show ?thesis by (subst (asm) Start_loop.simps) simp
        next
          case True
          with "1.prems" lt pass0
          have run: "Start_loop h (Suc i) m' st' = Returns (Some e, mr)"
            by (subst (asm) Start_loop.simps) simp
          from True have nn: "\<not> \<not> pr'" by simp
          show ?thesis by (rule "1.IH"[OF lt pass0 refl refl refl refl nn run])
        qed
      qed
    qed
  qed
qed

lemma Manager_Start_errors:
  assumes bad: "cyclic_or_missing m" and fin: "finite (dom (Containers (mconfig m)))"
    and run: "Manager_Start h m = Returns (r, mr)"
  shows "r = Some CircularOrMissingDependency \<or> r = Some CreateNetworksFailed \<or>
         (\<exists>name err. r = Some (ContainerStartFailed name err))"
proof -
  obtain e0 m1 where cn: "createNetworks h m = (e0, m1)" by (cases "createNetworks h m")
  from createNetworks_frame[OF cn] have mc: "mconfig m1 = mconfig m"
    and e0: "e0 = None \<or> e0 = Some CreateNetworksFailed" by simp_all
  show ?thesis
  proof (cases e0)
    case (Some err)
    with cn run e0 show ?thesis by (auto simp: Manager_Start_def)
  next
    case None
    with cn run have loop: "Start_loop h 0 m1 [] = Returns (r, mr)"
      by (simp add: Manager_Start_def)
    have "Start_loop h 0 m1 [] \<noteq> Returns (None, mr)"
      by (rule Start_loop_not_done[OF bad fin mc]) (simp_all add: dep_sorted_Nil)
    with loop obtain e where r: "r = Some e" by (cases r) auto
    from Start_loop_error[of h 0 m1 "[]" e mr] loop r show ?thesis by auto
  qed
qed

lemma Manager_Start_circular:
  assumes bad: "cyclic_or_missing m" and fin: "finite (dom (Containers (mconfig m)))"
    and cn: "createNetworks h m = (None, m1)" and ok: "starts_succeed h m1"
  shows "\<exists>m'. Manager_Start h m = Returns (Some CircularOrMissingDependency, m')"
proof -
  from createNetworks_frame[OF cn] have mc: "mconfig m1 = mconfig m" by simp
  have bad1: "cyclic_or_missing m1" using bad cyclic_or_missing_cong[OF mc] by simp
  have fin1: "finite (dom (Containers (mconfig m1)))" using fin mc by simp
  have "\<exists>m'. Start_loop h 0 m1 [] = Returns (Some CircularOrMissingDependency, m')"
    by (rule Start_loop_circular[OF bad1 fin1 ok refl refl]) (simp_all add: dep_sorted_Nil)
  with cn show ?thesis by (simp add: Manager_Start_def)
qed

subsection \<open>The deployments used as inputs\<close>

lemma Start_without_net:
  assumes "\<not> mutex k" "state k = StateCreated" "\<not> Net (Namespaces (config k))"
    "Marshal_ok w" "stat w (RootFS (config k)) \<noteq> NotExist" "cmd_Start w = Some p"
  shows "Start w k = Returns (None,
           k\<lparr> pid := p, cmd := Some \<lparr> child_config = config k, Process = Some p \<rparr>,
              state := StateRunning, startTime := time_Now w \<rparr>)"
  using assms
  by (simp add: Start_def Let_def Start_network_def Start_finalize_def unlock_def
      mutex_free_update)

lemma NewKitten_valid:
  assumes "ValidateConfig w c = None"
  shows "\<exists>k. NewKitten w c = Inr k \<and> \<not> mutex k \<and> state k = StateCreated \<and>
             Namespaces (config k) = Namespaces c \<and> RootFS (config k) = RootFS c"
  using assms by (simp add: NewKitten_def Let_def)

lemma container_config_plain:
  assumes "network spec = ''''" "namespaces spec = None"
  shows "\<exists>c. container_config h m name spec = Inr c \<and> RootFS c = image spec \<and>
             Command c = command spec \<and> \<not> Net (Namespaces c) \<and>
             Mounts c = PrepareDefaultMounts"
  using assms by (simp add: container_config_def Let_def NewDefaultConfig_def)

lemma PrepareDefaultMounts_targets:
  "\<not> list_ex (\<lambda>m. Target m = '''') PrepareDefaultMounts"
  by (simp add: PrepareDefaultMounts_def)

lemma startContainer_plain:
  assumes "network spec = ''''" "namespaces spec = None" "image spec = ''/opt/rootfs''"
    "command spec \<noteq> []"
  shows "\<exists>m2. startContainer host_ok m1 name spec = Returns (None, m2)"
proof -
  from container_config_plain[OF assms(1,2)] obtain c where
    cc: "container_config host_ok m1 name spec = Inr c" and c: "RootFS c = image spec"
    "Command c = command spec" "\<not> Net (Namespaces c)" "Mounts c = PrepareDefaultMounts"
    by blast
  have "code_rules_hold world_ok c"
    using c assms(3,4)
    by (simp add: code_rules_hold_def world_ok_simps PrepareDefaultMounts_targets)
  then have "ValidateConfig world_ok c = None" by (simp add: ValidateConfig_None)
  from NewKitten_valid[OF this] obtain k where
    nk: "NewKitten world_ok c = Inr k" and k: "\<not> mutex k" "state k = StateCreated"
    "Namespaces (config k) = Namespaces c" "RootFS (config k) = RootFS c"
    by blast
  have "Start world_ok k = Returns (None,
           k\<lparr> pid := 4242, cmd := Some \<lparr> child_config = config k, Process = Some 4242 \<rparr>,
              state := StateRunning, startTime := time_Now world_ok \<rparr>)"
    using k c assms(3) by (intro Start_without_net) (simp_all add: world_ok_simps)
  with cc nk show ?thesis by (simp add: startContainer_def host_ok_simps)
qed

lemma startContainer_missing:
  assumes "network spec = ''''" "namespaces spec = None" "image spec = ''/missing''"
  shows "startContainer host_ok m1 name spec =
           Returns (Some (KittenFailed (ConfigInvalid RootfsNotExist)), m1)"
proof -
  from container_config_plain[OF assms(1,2)] obtain c where
    cc: "container_config host_ok m1 name spec = Inr c" and c: "RootFS c = image spec"
    by blast
  have "ValidateConfig world_ok c = Some RootfsNotExist"
    using c assms(3) by (simp add: ValidateConfig_def world_ok_simps)
  then have "NewKitten world_ok c = Inl (ConfigInvalid RootfsNotExist)"
    by (simp add: NewKitten_def)
  with cc show ?thesis by (simp add: startContainer_def host_ok_simps)
qed

lemma spec_db_simps:
  "network (spec_db\<lparr>depends_on := ds\<rparr>) = ''''" "namespaces (spec_db\<lparr>depends_on := ds\<rparr>) = None"
  "image (spec_db\<lparr>depends_on := ds\<rparr>) = ''/opt/rootfs''"
  "command (spec_db\<lparr>depends_on := ds\<rparr>) \<noteq> []"
  "network spec_db = ''''" "namespaces spec_db = None" "image spec_db = ''/opt/rootfs''"
  "command spec_db \<noteq> []" "depends_on spec_db = []"
  "network (spec_db\<lparr>image := i\<rparr>) = ''''" "namespaces (spec_db\<lparr>image := i\<rparr>) = None"
  "image (spec_db\<lparr>image := i\<rparr>) = i" "depends_on (spec_db\<lparr>image := i\<rparr>) = []"
  by (simp_all add: spec_db_def)

lemma manager_cycle_simps:
  "Containers (mconfig manager_cycle) =
     [''a'' \<mapsto> spec_db\<lparr>depends_on := [''b'']\<rparr>, ''b'' \<mapsto> spec_db\<lparr>depends_on := [''a'']\<rparr>,
      ''c'' \<mapsto> spec_db]"
  "Networks (mconfig manager_cycle) = Map.empty"
  "networks manager_cycle = Map.empty" "containers manager_cycle = Map.empty"
  by (simp_all add: manager_cycle_def NewManager_def)

lemma manager_cycle_missing_simps:
  "Containers (mconfig manager_cycle_missing) =
     [''a'' \<mapsto> spec_db\<lparr>depends_on := [''b'']\<rparr>, ''b'' \<mapsto> spec_db\<lparr>depends_on := [''a'']\<rparr>,
      ''c'' \<mapsto> spec_db\<lparr>image := ''/missing''\<rparr>]"
  "Networks (mconfig manager_cycle_missing) = Map.empty"
  "networks manager_cycle_missing = Map.empty"
  by (simp_all add: manager_cycle_missing_def NewManager_def)

lemma manager_a_b_simps:
  "Containers (mconfig manager_a_b) =
     [''a'' \<mapsto> spec_db\<lparr>depends_on := [''b'']\<rparr>, ''b'' \<mapsto> spec_db\<lparr>depends_on := [''a'']\<rparr>]"
  "Networks (mconfig manager_a_b) = Map.empty"
  "networks manager_a_b = Map.empty" "containers manager_a_b = Map.empty"
  by (simp_all add: manager_a_b_def NewManager_def)

lemma two_cycle_bad:
  assumes "Containers (mconfig m) a = Some sa" "Containers (mconfig m) b = Some sb"
    "b \<in> set (depends_on sa)" "a \<in> set (depends_on sb)"
  shows "cyclic_or_missing m"
proof -
  let ?R = "dep_rel (buildDependencyGraph m)"
  have "(a, b) \<in> ?R" "(b, a) \<in> ?R"
    using assms by (simp_all add: dep_rel_def deps_of_buildDependencyGraph)
  then have "(a, a) \<in> ?R\<^sup>+" by (rule trancl_into_trancl2[OF _ r_into_trancl])
  then have "\<not> acyclic ?R" by (auto simp: acyclic_def)
  then show ?thesis by (simp add: cyclic_or_missing_def)
qed

lemma cyclic_manager_cycle: "cyclic_or_missing manager_cycle"
  by (rule two_cycle_bad[where a = "''a''" and b = "''b''"
        and sa = "spec_db\<lparr>depends_on := [''b'']\<rparr>" and sb = "spec_db\<lparr>depends_on := [''a'']\<rparr>"])
    (simp_all add: manager_cycle_simps)

lemma cyclic_manager_cycle_missing: "cyclic_or_missing manager_cycle_missing"
  by (rule two_cycle_bad[where a = "''a''" and b = "''b''"
        and sa = "spec_db\<lparr>depends_on := [''b'']\<rparr>" and sb = "spec_db\<lparr>depends_on := [''a'']\<rparr>"])
    (simp_all add: manager_cycle_missing_simps)

lemma cyclic_manager_a_b: "cyclic_or_missing manager_a_b"
  by (rule two_cycle_bad[where a = "''a''" and b = "''b''"
        and sa = "spec_db\<lparr>depends_on := [''b'']\<rparr>" and sb = "spec_db\<lparr>depends_on := [''a'']\<rparr>"])
    (simp_all add: manager_a_b_simps)

lemma createNetworks_none:
  "range_networks h = [] \<Longrightarrow> createNetworks h m = (None, m)"
  by (simp add: createNetworks_def)

lemma starts_succeed_manager_cycle: "starts_succeed host_ok manager_cycle"
  unfolding starts_succeed_def
proof (intro allI impI)
  fix m1 :: Manager and name spec
  assume "mconfig m1 = mconfig manager_cycle \<and> networks m1 = networks manager_cycle \<and>
          Containers (mconfig manager_cycle) name = Some spec"
  then have "spec = spec_db\<lparr>depends_on := [''b'']\<rparr> \<or> spec = spec_db\<lparr>depends_on := [''a'']\<rparr> \<or>
             spec = spec_db"
    by (auto simp: manager_cycle_simps split: if_splits)
  then show "\<exists>m2. startContainer host_ok m1 name spec = Returns (None, m2)"
    using startContainer_plain[of spec m1 name] by (auto simp: spec_db_simps)
qed

lemma host_a_b_simps:
  "range_networks host_a_b = []" "range_containers host_a_b = (\<lambda>i. [''b'', ''a''])"
  by (simp_all add: host_a_b_def host_ok_def)

section \<open>C1: the life cycle of a handle\<close>

text \<open>
  C1, as the claim words it, fails: no statement of the program assigns \<open>StateError\<close>.
  When the child cannot be spawned, \<open>Start\<close> returns the error and the handle is still
  in state Created.
\<close>

theorem C1_spawn_failure_counterexample:
  "NewKitten world_ok config_echo = Inr kitten_echo \<and>
   Start (world_ok\<lparr>cmd_Start := None\<rparr>) kitten_echo = Returns (Some SpawnFailed, kitten_echo) \<and>
   state kitten_echo \<noteq> StateError"
  by (simp add: NewKitten_echo Start_echo_spawn_fails kitten_echo_simps)

text \<open>
  C1, amended: a handle made by \<open>NewKitten\<close> is in state Created; \<open>Wait\<close> and \<open>Stop\<close>
  refuse it and leave it as it is, so only \<open>Start\<close> takes a handle out of Created;
  \<open>Start\<close> moves it to Running when it returns no error, and leaves it in Created
  whenever it returns an error. No operation that returns moves a handle into the Error
  state.
\<close>

theorem C1_lifecycle:
  assumes "NewKitten w0 c = Inr k"
  shows "state k = StateCreated \<and>
         Wait w k = Returns ((0, Some NotStarted), k) \<and>
         Stop w k = Returns (Some NotRunning, k) \<and>
         (\<forall>k'. Start w k = Returns (None, k') \<longrightarrow> state k' = StateRunning) \<and>
         (\<forall>e k'. Start w k = Returns (Some e, k') \<longrightarrow> state k' = StateCreated) \<and>
         (\<forall>h r h'. state h \<noteq> StateError \<and>
                    (Start w h = Returns (r, h') \<or> Stop w h = Returns (r, h')) \<longrightarrow>
                    state h' \<noteq> StateError) \<and>
         (\<forall>h r h'. state h \<noteq> StateError \<and> Wait w h = Returns (r, h') \<longrightarrow>
                    state h' \<noteq> StateError)"
proof -
  from NewKitten_fresh[OF assms]
  have fresh: "state k = StateCreated" "\<not> mutex k" "cmd k = None" by auto
  have wait: "Wait w k = Returns ((0, Some NotStarted), k)"
    using fresh by (simp add: Wait_def)
  have stop: "Stop w k = Returns (Some NotRunning, k)"
    using fresh by (simp add: Stop_refused)
  have ok: "\<forall>k'. Start w k = Returns (None, k') \<longrightarrow> state k' = StateRunning"
    using Start_result by blast
  have err: "\<forall>e k'. Start w k = Returns (Some e, k') \<longrightarrow> state k' = StateCreated"
    using Start_result[of w k] fresh by fastforce
  have noerr1: "\<forall>h r h'. state h \<noteq> StateError \<and>
                   (Start w h = Returns (r, h') \<or> Stop w h = Returns (r, h')) \<longrightarrow>
                   state h' \<noteq> StateError"
  proof (intro allI impI)
    fix h r h'
    assume a: "state h \<noteq> StateError \<and>
               (Start w h = Returns (r, h') \<or> Stop w h = Returns (r, h'))"
    then consider "Start w h = Returns (r, h')" | "Stop w h = Returns (r, h')" by blast
    then show "state h' \<noteq> StateError"
    proof cases
      case 1
      from Start_result[OF 1] a show ?thesis by (cases r) auto
    next
      case 2
      from Stop_frame[OF 2] a show ?thesis by (cases r) auto
    qed
  qed
  have noerr2: "\<forall>h r h'. state h \<noteq> StateError \<and> Wait w h = Returns (r, h') \<longrightarrow>
                   state h' \<noteq> StateError"
  proof (intro allI impI)
    fix h r h'
    assume a: "state h \<noteq> StateError \<and> Wait w h = Returns (r, h')"
    then have "Wait w h = Returns (r, h')" by simp
    from Wait_frame[OF this] a show "state h' \<noteq> StateError" by (cases "cmd h") auto
  qed
  from fresh(1) wait stop ok err noerr1 noerr2 show ?thesis by blast
qed

theorem C1_lifecycle_witness:
  "NewKitten world_ok config_echo = Inr kitten_echo \<and>
   state kitten_echo = StateCreated \<and>
   Start world_ok kitten_echo = Returns (None, kitten_echo_running) \<and>
   state kitten_echo_running = StateRunning \<and>
   Stop world_ok kitten_echo = Returns (Some NotRunning, kitten_echo)"
  using C1_lifecycle[OF NewKitten_echo, of world_ok] Start_echo NewKitten_echo
  by simp

section \<open>C2: refusals leave the handle alone\<close>

text \<open>
  C2: on a handle whose lock is free (every handle between two calls), \<open>Start\<close> in a
  state other than Created fails with \<open>AlreadyStarted\<close>, \<open>Stop\<close> in a state other
  than Running fails with \<open>NotRunning\<close>, and the handle returned is the handle given,
  field by field.
\<close>

theorem C2_refusals_change_nothing:
  assumes "\<not> mutex k"
  shows "(state k \<noteq> StateCreated \<longrightarrow> Start w k = Returns (Some AlreadyStarted, k)) \<and>
         (state k \<noteq> StateRunning \<longrightarrow> Stop w k = Returns (Some NotRunning, k))"
  using assms by (simp add: Start_refused Stop_refused)

theorem C2_refusals_witness:
  "\<not> mutex kitten_echo_running \<and> state kitten_echo_running = StateRunning \<and>
   Start world_ok kitten_echo_running = Returns (Some AlreadyStarted, kitten_echo_running) \<and>
   \<not> mutex kitten_echo \<and> state kitten_echo = StateCreated \<and>
   Stop world_ok kitten_echo = Returns (Some NotRunning, kitten_echo)"
proof -
  have r: "\<not> mutex kitten_echo_running" "state kitten_echo_running = StateRunning"
    by (simp_all add: kitten_echo_running_def kitten_echo_simps)
  have c: "\<not> mutex kitten_echo" "state kitten_echo = StateCreated"
    by (simp_all add: kitten_echo_simps)
  from C2_refusals_change_nothing[OF r(1), of world_ok]
       C2_refusals_change_nothing[OF c(1), of world_ok] r c
  show ?thesis by simp
qed

section \<open>C3: the allocated address\<close>

text \<open>
  C3, as the claim words it, fails: \<open>allocateIP\<close> only replaces the last octet of the
  network address by a number from 2 to 254. For \<^verbatim>\<open>10.0.0.0/30\<close>, which holds the
  addresses \<^verbatim>\<open>10.0.0.0\<close> to \<^verbatim>\<open>10.0.0.3\<close>, a draw of 198 gives \<^verbatim>\<open>10.0.0.200\<close>,
  outside the subnet.
\<close>

theorem C3_prefix_30_counterexample:
  "ParseCIDR world_ok ''10.0.0.0/30'' = Some \<lparr> IP = [10, 0, 0, 0], Mask = [255, 255, 255, 252] \<rparr> \<and>
   allocateIP world_ok ''10.0.0.0/30'' = ''10.0.0.200'' \<and>
   IP_String world_ok [10, 0, 0, 200] = ''10.0.0.200'' \<and>
   \<not> Contains \<lparr> IP = [10, 0, 0, 0], Mask = [255, 255, 255, 252] \<rparr> [10, 0, 0, 200]"
  by (simp add: ParseCIDR_slash30 allocateIP_def Intn_world_ok IP_String_200 Contains_def)

text \<open>
  C3, amended: for every subnet text that parses as an IPv4 CIDR with a prefix length of
  at most 24, \<open>allocateIP\<close> returns the dotted form of an address inside that subnet
  whose last octet lies in [2, 254]; it is neither the network address nor the broadcast
  address.
\<close>

theorem C3_allocateIP_in_subnet:
  assumes "ParseCIDR w s = Some ipn" and "Mask ipn = CIDRMask n 32" and "n \<le> 24"
  shows "\<exists>addr. allocateIP w s = IP_String w addr \<and> length addr = 4 \<and>
           Contains ipn addr \<and>
           2 \<le> unat (addr ! 3) \<and> unat (addr ! 3) \<le> 254 \<and>
           addr \<noteq> IP ipn \<and> addr \<noteq> broadcast ipn"
proof -
  from CIDRMask_24[OF assms(3)] assms(2)
  obtain m0 m1 m2 where mask: "Mask ipn = [m0, m1, m2, 0]" by auto
  then have "length (Mask ipn) = 4" by simp
  from ParseCIDR_v4[OF assms(1) this] obtain a where
    a: "length a = 4" "IP ipn = map (\<lambda>(x, m). x AND m) (zip a (Mask ipn))" by blast
  from a(1) obtain a0 a1 a2 a3 where "a = [a0, a1, a2, a3]" by (rule length4E)
  with a(2) mask have net: "IP ipn = [a0 AND m0, a1 AND m1, a2 AND m2, 0]" by simp
  define x :: byte where "x = of_nat (Intn w 253 + 2)"
  let ?addr = "[a0 AND m0, a1 AND m1, a2 AND m2, x]"
  have x: "2 \<le> unat x" "unat x \<le> 254"
    using unat_alloc_octet[of w] by (simp_all add: x_def)
  have x0: "x \<noteq> 0"
  proof
    assume "x = 0"
    then have "unat x = 0" by simp
    with x(1) show False by simp
  qed
  have x255: "x \<noteq> 255"
  proof
    assume "x = 255"
    then have "unat x = 255" by simp
    with x(2) show False by simp
  qed
  have alloc: "allocateIP w s = IP_String w ?addr"
    using assms(1) net by (simp add: allocateIP_def Let_def x_def)
  have cont: "Contains ipn ?addr"
    using net mask by (simp add: Contains_def word_bw_assocs)
  have nnet: "?addr \<noteq> IP ipn" using net x0 by simp
  have "broadcast ipn ! 3 = 255"
    using net mask by (simp add: broadcast_def)
  then have b3: "broadcast ipn ! 3 \<noteq> x" using x255 by simp
  have nbc: "?addr \<noteq> broadcast ipn"
  proof
    assume "?addr = broadcast ipn"
    then have "?addr ! 3 = broadcast ipn ! 3" by (rule arg_cong)
    with b3 show False by simp
  qed
  from alloc cont x nnet nbc show ?thesis
    by (intro exI[of _ ?addr]) simp
qed

theorem C3_allocateIP_witness:
  "ParseCIDR world_ok ''10.0.0.0/24'' = Some \<lparr> IP = [10, 0, 0, 0], Mask = [255, 255, 255, 0] \<rparr> \<and>
   allocateIP world_ok ''10.0.0.0/24'' = ''10.0.0.200'' \<and>
   (\<exists>addr. allocateIP world_ok ''10.0.0.0/24'' = IP_String world_ok addr \<and>
      Contains \<lparr> IP = [10, 0, 0, 0], Mask = [255, 255, 255, 0] \<rparr> addr \<and>
      2 \<le> unat (addr ! 3) \<and> unat (addr ! 3) \<le> 254)"
proof -
  have m: "Mask \<lparr> IP = [10, 0, 0, 0], Mask = [255, 255, 255, 0] \<rparr> = CIDRMask 24 32"
    by (simp add: CIDRMask_24')
  have "allocateIP world_ok ''10.0.0.0/24'' = ''10.0.0.200''"
    by (simp add: ParseCIDR_slash24 allocateIP_def Intn_world_ok IP_String_200)
  with C3_allocateIP_in_subnet[OF ParseCIDR_slash24 m, of world_ok] ParseCIDR_slash24
  show ?thesis by auto
qed

section \<open>C4: a deployment with a dependency cycle or a missing dependency\<close>

text \<open>
  C4, as the claim words it, fails: \<^verbatim>\<open>Start\<close> returns the first error it meets. In the
  deployment where \<^verbatim>\<open>a\<close> and \<^verbatim>\<open>b\<close> depend on each other and the root file system of the
  independent \<^verbatim>\<open>c\<close> does not exist, the first pass tries to start \<^verbatim>\<open>c\<close>, and
  \<^verbatim>\<open>Start\<close> returns that failure, not the dependency error.
\<close>

theorem C4_failed_start_counterexample:
  "cyclic_or_missing manager_cycle_missing \<and>
   Manager_Start host_ok manager_cycle_missing =
     Returns (Some (ContainerStartFailed ''c'' (KittenFailed (ConfigInvalid RootfsNotExist))),
              manager_cycle_missing)"
proof -
  let ?m = manager_cycle_missing
  have cn: "createNetworks host_ok ?m = (None, ?m)"
    by (rule createNetworks_none) (simp add: host_ok_simps)
  have sc: "startContainer host_ok ?m ''c'' (spec_db\<lparr>image := ''/missing''\<rparr>) =
              Returns (Some (KittenFailed (ConfigInvalid RootfsNotExist)), ?m)"
    by (rule startContainer_missing) (simp_all add: spec_db_simps)
  have pass: "Start_pass host_ok [''a'', ''b'', ''c''] ?m [] False =
                Returns (Some (ContainerStartFailed ''c''
                                 (KittenFailed (ConfigInvalid RootfsNotExist))), ?m, [], False)"
    by (simp add: manager_cycle_missing_simps sc spec_db_simps)
  have lt: "card (set ([] :: string list)) < card (dom (Containers (mconfig ?m)))"
    by (simp add: manager_cycle_missing_simps)
  have "Start_loop host_ok 0 ?m [] =
          Returns (Some (ContainerStartFailed ''c''
                           (KittenFailed (ConfigInvalid RootfsNotExist))), ?m)"
    using lt pass by (subst Start_loop.simps) (simp add: host_ok_simps)
  with cn cyclic_manager_cycle_missing show ?thesis by (simp add: Manager_Start_def)
qed

text \<open>
  C4, amended: for a deployment of finitely many containers whose dependency graph has a
  cycle or a dependency on an undeclared container, \<open>Manager_Start\<close> never returns
  success: whenever it returns, the error is the dependency error, or that of a network
  creation or of a container start that failed first; and when the networks are created
  and every start of a container succeeds, it returns the dependency error. For a
  deployment of two containers depending on each other it returns without having started
  a container, with the dependency error whenever the networks were created (with the
  network error otherwise).
\<close>

theorem C4_cycle_or_missing_dependency:
  assumes "cyclic_or_missing m" and "finite (dom (Containers (mconfig m)))"
  shows "(\<forall>r m'. Manager_Start h m = Returns (r, m') \<longrightarrow>
                 r = Some CircularOrMissingDependency \<or> r = Some CreateNetworksFailed \<or>
                 (\<exists>name err. r = Some (ContainerStartFailed name err))) \<and>
         (\<forall>m1. createNetworks h m = (None, m1) \<and> starts_succeed h m1 \<longrightarrow>
                (\<exists>m'. Manager_Start h m = Returns (Some CircularOrMissingDependency, m'))) \<and>
         (\<forall>A B sa sb.
            Containers (mconfig m) = [A \<mapsto> sa, B \<mapsto> sb] \<and> A \<noteq> B \<and>
            B \<in> set (depends_on sa) \<and> A \<in> set (depends_on sb) \<longrightarrow>
              (\<exists>e m'. Manager_Start h m = Returns (Some e, m') \<and>
                       containers m' = containers m \<and>
                       (e = CircularOrMissingDependency \<or> e = CreateNetworksFailed) \<and>
                       (fst (createNetworks h m) = None \<longrightarrow>
                          e = CircularOrMissingDependency)))"
proof (intro conjI allI impI)
  fix r m'
  assume "Manager_Start h m = Returns (r, m')"
  then show "r = Some CircularOrMissingDependency \<or> r = Some CreateNetworksFailed \<or>
             (\<exists>name err. r = Some (ContainerStartFailed name err))"
    by (rule Manager_Start_errors[OF assms])
next
  fix m1
  assume "createNetworks h m = (None, m1) \<and> starts_succeed h m1"
  then show "\<exists>m'. Manager_Start h m = Returns (Some CircularOrMissingDependency, m')"
    using Manager_Start_circular[OF assms] by blast
next
  fix A B sa sb
  assume "Containers (mconfig m) = [A \<mapsto> sa, B \<mapsto> sb] \<and> A \<noteq> B \<and>
          B \<in> set (depends_on sa) \<and> A \<in> set (depends_on sb)"
  then show "\<exists>e m'. Manager_Start h m = Returns (Some e, m') \<and>
                     containers m' = containers m \<and>
                     (e = CircularOrMissingDependency \<or> e = CreateNetworksFailed) \<and>
                     (fst (createNetworks h m) = None \<longrightarrow> e = CircularOrMissingDependency)"
    using Manager_Start_two_cycle[of m A sa B sb h] by blast
qed

text \<open>
  The deployment of \<^verbatim>\<open>a\<close>, \<^verbatim>\<open>b\<close> and an independent \<^verbatim>\<open>c\<close> whose start succeeds, and the
  deployment of \<^verbatim>\<open>a\<close> and \<^verbatim>\<open>b\<close> alone.
\<close>

theorem C4_cycle_or_missing_witness:
  "cyclic_or_missing manager_cycle \<and> finite (dom (Containers (mconfig manager_cycle))) \<and>
   createNetworks host_ok manager_cycle = (None, manager_cycle) \<and>
   starts_succeed host_ok manager_cycle \<and>
   (\<exists>m'. Manager_Start host_ok manager_cycle =
            Returns (Some CircularOrMissingDependency, m')) \<and>
   cyclic_or_missing manager_a_b \<and> finite (dom (Containers (mconfig manager_a_b))) \<and>
   (\<exists>m'. Manager_Start host_a_b manager_a_b =
            Returns (Some CircularOrMissingDependency, m') \<and>
          containers m' = containers manager_a_b)"
proof -
  have bad: "cyclic_or_missing manager_cycle" by (rule cyclic_manager_cycle)
  have fin: "finite (dom (Containers (mconfig manager_cycle)))"
    by (simp add: manager_cycle_simps)
  have cn: "createNetworks host_ok manager_cycle = (None, manager_cycle)"
    by (rule createNetworks_none) (simp add: host_ok_simps)
  have ok: "starts_succeed host_ok manager_cycle" by (rule starts_succeed_manager_cycle)
  from C4_cycle_or_missing_dependency[OF bad fin, of host_ok] cn ok
  have r1: "\<exists>m'. Manager_Start host_ok manager_cycle =
                   Returns (Some CircularOrMissingDependency, m')"
    by blast
  have bad2: "cyclic_or_missing manager_a_b" by (rule cyclic_manager_a_b)
  have fin2: "finite (dom (Containers (mconfig manager_a_b)))"
    by (simp add: manager_a_b_simps)
  have cn2: "fst (createNetworks host_a_b manager_a_b) = None"
    by (simp add: createNetworks_none host_a_b_simps)
  have two: "Containers (mconfig manager_a_b) =
               [''a'' \<mapsto> spec_db\<lparr>depends_on := [''b'']\<rparr>, ''b'' \<mapsto> spec_db\<lparr>depends_on := [''a'']\<rparr>] \<and>
             ''a'' \<noteq> ''b'' \<and> ''b'' \<in> set (depends_on (spec_db\<lparr>depends_on := [''b'']\<rparr>)) \<and>
             ''a'' \<in> set (depends_on (spec_db\<lparr>depends_on := [''a'']\<rparr>))"
    by (simp add: manager_a_b_simps)
  from C4_cycle_or_missing_dependency[OF bad2 fin2, of host_a_b] two cn2
  have r2: "\<exists>m'. Manager_Start host_a_b manager_a_b =
                   Returns (Some CircularOrMissingDependency, m') \<and>
                 containers m' = containers manager_a_b"
    by blast
  from bad fin cn ok r1 bad2 fin2 r2 show ?thesis by blast
qed

section \<open>C5: the stop order\<close>

text \<open>
  C5: when the dependency graph of the deployment is acyclic, the order that
  \<open>Manager_Stop\<close> computes (\<open>getStopOrder\<close> of \<open>buildDependencyGraph\<close>, the range over
  the graph visiting exactly its keys) exists, lists every declared container once, and
  has every container before each container it depends on.
\<close>

theorem C5_stop_order_reverse_topological:
  assumes keys: "set (range_deps h) = dom (Containers (mconfig m))"
    and ac: "acyclic (dep_rel (buildDependencyGraph m))"
  shows "\<exists>stop_order.
           getStopOrder (buildDependencyGraph m) (range_deps h) = Some stop_order \<and>
           distinct stop_order \<and>
           dom (Containers (mconfig m)) \<subseteq> set stop_order \<and>
           (\<forall>name spec dep.
              Containers (mconfig m) name = Some spec \<and> dep \<in> set (depends_on spec) \<longrightarrow>
              (\<exists>xs ys zs. stop_order = xs @ name # ys @ dep # zs))"
proof -
  let ?deps = "buildDependencyGraph m"
  from keys have k: "set (range_deps h) = dom ?deps" by (simp add: dom_buildDependencyGraph)
  from getStopOrder_sorted[OF k ac] obtain ord where
    run: "getStopOrder ?deps (range_deps h) = Some (rev ord)" and d: "distinct ord"
    and sub: "set (range_deps h) \<subseteq> set ord" and sorted: "dep_sorted ?deps ord"
    by blast
  have "\<forall>name spec dep.
          Containers (mconfig m) name = Some spec \<and> dep \<in> set (depends_on spec) \<longrightarrow>
          (\<exists>xs ys zs. rev ord = xs @ name # ys @ dep # zs)"
  proof (intro allI impI)
    fix name spec dep
    assume a: "Containers (mconfig m) name = Some spec \<and> dep \<in> set (depends_on spec)"
    with keys sub have "name \<in> set ord" by auto
    then obtain pre post where ord: "ord = pre @ name # post" by (auto dest: split_list)
    with sorted have "set (deps_of ?deps name) \<subseteq> set pre" by (simp add: dep_sorted_def)
    moreover from a have "deps_of ?deps name = depends_on spec"
      by (simp add: deps_of_buildDependencyGraph)
    ultimately have "dep \<in> set pre" using a by auto
    then obtain p1 p2 where "pre = p1 @ dep # p2" by (auto dest: split_list)
    with ord have "rev ord = rev post @ name # rev p2 @ dep # rev p1" by simp
    then show "\<exists>xs ys zs. rev ord = xs @ name # ys @ dep # zs" by blast
  qed
  with run d sub keys show ?thesis by auto
qed

text \<open>The deployment in which \<^verbatim>\<open>web\<close> depends on \<^verbatim>\<open>db\<close>: \<^verbatim>\<open>web\<close> is stopped first.\<close>

theorem C5_stop_order_witness:
  "set (range_deps host_ok) = dom (Containers (mconfig manager_web_db)) \<and>
   acyclic (dep_rel (buildDependencyGraph manager_web_db)) \<and>
   getStopOrder (buildDependencyGraph manager_web_db) (range_deps host_ok) =
     Some [''web'', ''db''] \<and>
   (\<exists>xs ys zs. [''web'', ''db''] = xs @ ''web'' # ys @ ''db'' # zs)"
proof -
  have k: "set (range_deps host_ok) = dom (Containers (mconfig manager_web_db))"
    by (auto simp: host_ok_simps manager_web_db_simps)
  have "acyclic ({} :: (string \<times> string) set)" by (rule wf_acyclic) simp
  then have ac: "acyclic (dep_rel (buildDependencyGraph manager_web_db))"
    by (simp add: dep_rel_web_db acyclic_insert)
  have ev: "getStopOrder (buildDependencyGraph manager_web_db) (range_deps host_ok) =
              Some [''web'', ''db'']"
    by (simp add: host_ok_simps getStopOrder_web_db)
  have c: "Containers (mconfig manager_web_db) ''web'' = Some (spec_db\<lparr>depends_on := [''db'']\<rparr>) \<and>
           ''db'' \<in> set (depends_on (spec_db\<lparr>depends_on := [''db'']\<rparr>))"
    by (simp add: manager_web_db_simps)
  from C5_stop_order_reverse_topological[OF k ac] ev
  have "\<forall>name spec dep.
          Containers (mconfig manager_web_db) name = Some spec \<and> dep \<in> set (depends_on spec) \<longrightarrow>
          (\<exists>xs ys zs. [''web'', ''db''] = xs @ name # ys @ dep # zs)"
    by auto
  with c have "\<exists>xs ys zs. [''web'', ''db''] = xs @ ''web'' # ys @ ''db'' # zs" by blast
  with k ac ev show ?thesis by blast
qed

section \<open>C6: what NewKitten rejects\<close>

text \<open>
  C6, as the claim words it, fails: a configuration that carries a network configuration
  while the Net namespace is disabled breaks the rule "network configuration present if
  and only if Net", and \<open>NewKitten\<close> accepts it all the same.
\<close>

theorem C6_iff_rule_counterexample:
  "\<not> spec_rules_hold world_ok config_net_off \<and> \<not> isl (NewKitten world_ok config_net_off)"
  by (simp add: spec_rules_hold_def NewKitten_def ValidateConfig_def config_net_off_def
      config_echo_def NewDefaultConfig_def PrepareDefaultMounts_def world_ok_simps)

text \<open>
  C6, amended: \<open>NewKitten\<close> rejects exactly the configurations with an empty rootfs, a
  rootfs that \<^verbatim>\<open>os.Stat\<close> does not report as a directory, an empty command, the Net
  namespace enabled without a network configuration, or a mount with an empty target.
  Every other configuration yields a handle in state Created holding the configuration,
  with the supplied ID, or a generated one (\<^verbatim>\<open>kitten_\<close> and 16 hex digits) when none
  was supplied.
\<close>

theorem C6_NewKitten_rejects_exactly:
  "(isl (NewKitten w c) \<longleftrightarrow> \<not> code_rules_hold w c) \<and>
   (code_rules_hold w c \<longrightarrow>
      (\<exists>k. NewKitten w c = Inr k \<and> state k = StateCreated \<and>
           Kitten.ID k = (if KittenConfig.ID c = '''' then GenerateID w ''kitten''
                          else KittenConfig.ID c) \<and>
           config k = c\<lparr>KittenConfig.ID := Kitten.ID k\<rparr> \<and>
           (KittenConfig.ID c = '''' \<longrightarrow>
              length (Kitten.ID k) = 23 \<and> take 7 (Kitten.ID k) = ''kitten_'')))"
proof (cases "ValidateConfig w c")
  case None
  then have ok: "code_rules_hold w c" by (simp add: ValidateConfig_None)
  have len: "length (GenerateID w ''kitten'') = 23"
    by (simp add: GenerateID_def hex_EncodeToString_def length_concat comp_def upt_rec)
  have pre: "take 7 (GenerateID w ''kitten'') = ''kitten_''"
    by (simp add: GenerateID_def)
  from None ok len pre show ?thesis
    by (simp add: NewKitten_def Let_def)
next
  case (Some e)
  then have "\<not> code_rules_hold w c"
    using ValidateConfig_None[of w c] by simp
  with Some show ?thesis by (simp add: NewKitten_def)
qed

theorem C6_NewKitten_witness:
  "code_rules_hold world_ok config_echo \<and>
   (\<exists>k. NewKitten world_ok config_echo = Inr k \<and> state k = StateCreated \<and>
        Kitten.ID k = ''kitten_031425364758697a'')"
proof -
  have ok: "code_rules_hold world_ok config_echo"
    by (simp add: code_rules_hold_def config_echo_def NewDefaultConfig_def
        PrepareDefaultMounts_def world_ok_simps)
  have "KittenConfig.ID config_echo = ''''"
    by (simp add: config_echo_def NewDefaultConfig_def)
  with ok C6_NewKitten_rejects_exactly[of world_ok config_echo] show ?thesis
    by (auto simp: GenerateID_world_ok)
qed

section \<open>C7: veth pair names\<close>

text \<open>
  C7, as the claim words it, fails in its naming half: an ID without an underscore has no
  suffix after \<^verbatim>\<open>_\<close>, and \<open>shortID\<close> returns it whole. On the host where all succeeds the
  10-byte ID \<^verbatim>\<open>abcdefghij\<close> gets the pair \<^verbatim>\<open>vethabcdefghij\<close> (14 bytes) and
  \<^verbatim>\<open>vethcabcdefghij\<close> (15 bytes), which the kernel takes: ten characters of the ID follow
  \<^verbatim>\<open>veth\<close>, not six, and they are not the six of the specification's key.
\<close>

theorem C7_bare_id_counterexample:
  "createVethPair world_ok ''abcdefghij'' = Inr (''vethabcdefghij'', ''vethcabcdefghij'') \<and>
   ''vethabcdefghij'' \<noteq> ''veth'' @ spec_shortID ''abcdefghij'' \<and>
   \<not> length ''vethabcdefghij'' \<le> length ''veth'' + 6"
  by (simp add: createVethPair_def LinkAdd_def IFNAMSIZ_def shortID_def spec_shortID_def
      world_ok_simps)

text \<open>
  C7, amended: for every container ID, a veth pair that \<open>createVethPair\<close> creates is named
  \<^verbatim>\<open>veth\<close> plus \<open>shortID\<close> of the ID for the host side and \<^verbatim>\<open>vethc\<close> plus the same for the
  peer, and both names are at most 15 bytes long. For an ID that contains an underscore
  (every generated ID does) \<open>shortID\<close> is the first six bytes (fewer if there are fewer) of
  the part of the ID between its first underscore and the next one or the end, and the
  pair is created whenever the host accepts it; for an ID without an underscore
  \<open>shortID\<close> is the whole ID, and the pair is created when the ID has at most 10 bytes
  and the host accepts it, and refused when the ID is longer.
\<close>

theorem C7_createVethPair_names:
  "(\<forall>vh vc. createVethPair w kid = Inr (vh, vc) \<longrightarrow>
              vh = ''veth'' @ shortID kid \<and> vc = ''vethc'' @ shortID kid \<and>
              length vh \<le> 15 \<and> length vc \<le> 15) \<and>
   (CHR ''_'' \<in> set kid \<longrightarrow>
      shortID kid = take 6 (takeWhile (\<lambda>x. x \<noteq> CHR ''_'')
                              (tl (dropWhile (\<lambda>x. x \<noteq> CHR ''_'') kid))) \<and>
      (LinkAdd_ok w \<longrightarrow>
         createVethPair w kid = Inr (''veth'' @ shortID kid, ''vethc'' @ shortID kid))) \<and>
   (CHR ''_'' \<notin> set kid \<longrightarrow>
      shortID kid = kid \<and>
      (LinkAdd_ok w \<and> length kid \<le> 10 \<longrightarrow>
         createVethPair w kid = Inr (''veth'' @ kid, ''vethc'' @ kid)) \<and>
      (length kid > 10 \<longrightarrow> createVethPair w kid = Inl VethCreateFailed))"
proof (intro conjI allI impI)
  fix vh vc
  assume r: "createVethPair w kid = Inr (vh, vc)"
  then have l: "LinkAdd w (''veth'' @ shortID kid) (''vethc'' @ shortID kid)"
    by (simp add: createVethPair_def Let_def split: if_splits)
  from r show "vh = ''veth'' @ shortID kid" and "vc = ''vethc'' @ shortID kid"
    by (simp_all add: createVethPair_def Let_def split: if_splits)
  with l show "length vh \<le> 15" and "length vc \<le> 15"
    by (simp_all add: LinkAdd_def IFNAMSIZ_def)
next
  assume u: "CHR ''_'' \<in> set kid"
  then show s: "shortID kid = take 6 (takeWhile (\<lambda>x. x \<noteq> CHR ''_'')
                                        (tl (dropWhile (\<lambda>x. x \<noteq> CHR ''_'') kid)))"
    by (rule shortID_sep)
  assume "LinkAdd_ok w"
  moreover have "length (shortID kid) \<le> 6" by (subst s) simp
  ultimately show "createVethPair w kid = Inr (''veth'' @ shortID kid, ''vethc'' @ shortID kid)"
    by (simp add: createVethPair_def LinkAdd_def IFNAMSIZ_def)
next
  assume n: "CHR ''_'' \<notin> set kid"
  then show s: "shortID kid = kid" by (rule shortID_no_sep)
  { assume "LinkAdd_ok w \<and> length kid \<le> 10"
    with s show "createVethPair w kid = Inr (''veth'' @ kid, ''vethc'' @ kid)"
      by (simp add: createVethPair_def LinkAdd_def IFNAMSIZ_def) }
  { assume "length kid > 10"
    with s show "createVethPair w kid = Inl VethCreateFailed"
      by (simp add: createVethPair_def LinkAdd_def IFNAMSIZ_def) }
qed

text \<open>
  A generated ID, and the ID \<^verbatim>\<open>web\<close> without an underscore, on the host where all
  succeeds.
\<close>

theorem C7_createVethPair_witness:
  "CHR ''_'' \<in> set ''kitten_031425364758697a'' \<and> LinkAdd_ok world_ok \<and>
   createVethPair world_ok ''kitten_031425364758697a'' = Inr (''veth031425'', ''vethc031425'') \<and>
   length ''veth031425'' \<le> 15 \<and> length ''vethc031425'' \<le> 15 \<and>
   CHR ''_'' \<notin> set ''web'' \<and> length ''web'' \<le> 10 \<and>
   createVethPair world_ok ''web'' = Inr (''vethweb'', ''vethcweb'')"
proof -
  have ok: "LinkAdd_ok world_ok" by (simp add: world_ok_simps)
  have u: "CHR ''_'' \<in> set ''kitten_031425364758697a''" by simp
  have n: "CHR ''_'' \<notin> set ''web''" by simp
  from C7_createVethPair_names[of world_ok "''kitten_031425364758697a''"] u ok
  have g: "createVethPair world_ok ''kitten_031425364758697a'' =
             Inr (''veth'' @ shortID ''kitten_031425364758697a'',
                  ''vethc'' @ shortID ''kitten_031425364758697a'')"
    by blast
  from C7_createVethPair_names[of world_ok "''kitten_031425364758697a''"] g
  have b: "length (''veth'' @ shortID ''kitten_031425364758697a'') \<le> 15 \<and>
           length (''vethc'' @ shortID ''kitten_031425364758697a'') \<le> 15"
    by blast
  from C7_createVethPair_names[of world_ok "''web''"] n ok
  have w: "createVethPair world_ok ''web'' = Inr (''veth'' @ ''web'', ''vethc'' @ ''web'')"
    by simp
  from g b w u n ok show ?thesis by (simp add: shortID_generated)
qed

section \<open>C8: the default environment\<close>

text \<open>
  C8, as the claim words it, fails: the test is \<^verbatim>\<open>os.Getenv(name) == ""\<close>, which is
  also true of a variable that is set to the empty string. A configuration that supplies
  an empty \<^verbatim>\<open>PATH\<close> has it replaced by the default.
\<close>

theorem C8_empty_PATH_counterexample:
  "Env config_empty_PATH ''PATH'' = Some '''' \<and>
   RunChild_env config_empty_PATH [''PATH''] Map.empty ''PATH'' = Some default_PATH \<and>
   default_PATH \<noteq> ''''"
  using name_ok
  by (simp add: config_empty_PATH_def RunChild_env_def Let_def Setenv_def Getenv_def)

text \<open>
  C8, amended: after the configuration's environment mapping has been applied, each of
  the two defaults is set exactly when the variable's value is then empty (unset, or set
  to the empty string), and is otherwise left as it is; a non-empty \<^verbatim>\<open>PATH\<close> or
  \<^verbatim>\<open>HOME\<close> value supplied in the mapping (one that \<^verbatim>\<open>os.Setenv\<close> accepts: no NUL
  byte) is the value the command sees. \<open>keys\<close> is the order in which the range over
  the mapping visits its keys.
\<close>

theorem C8_defaults_only_for_empty:
  assumes "set keys = dom (Env cfg)"
  shows "(Env cfg ''PATH'' = Some v \<and> v \<noteq> '''' \<and> NUL \<notin> set v \<longrightarrow>
            RunChild_env cfg keys env0 ''PATH'' = Some v) \<and>
         (Env cfg ''HOME'' = Some v \<and> v \<noteq> '''' \<and> NUL \<notin> set v \<longrightarrow>
            RunChild_env cfg keys env0 ''HOME'' = Some v) \<and>
         (Getenv (apply_Env (Env cfg) keys env0) ''PATH'' \<noteq> '''' \<longrightarrow>
            RunChild_env cfg keys env0 ''PATH'' = apply_Env (Env cfg) keys env0 ''PATH'') \<and>
         (Getenv (apply_Env (Env cfg) keys env0) ''PATH'' = '''' \<longrightarrow>
            RunChild_env cfg keys env0 ''PATH'' = Some default_PATH) \<and>
         (Getenv (apply_Env (Env cfg) keys env0) ''HOME'' \<noteq> '''' \<longrightarrow>
            RunChild_env cfg keys env0 ''HOME'' = apply_Env (Env cfg) keys env0 ''HOME'') \<and>
         (Getenv (apply_Env (Env cfg) keys env0) ''HOME'' = '''' \<longrightarrow>
            RunChild_env cfg keys env0 ''HOME'' = Some ''/root'')"
proof -
  let ?e1 = "apply_Env (Env cfg) keys env0"
  have ne: "''PATH'' \<noteq> ''HOME''" by simp
  have path_get: "Getenv (Setenv ''PATH'' default_PATH ?e1) ''HOME'' = Getenv ?e1 ''HOME''"
    by (simp add: Getenv_def Setenv_def)
  have P1: "Getenv ?e1 ''PATH'' \<noteq> '''' \<longrightarrow> RunChild_env cfg keys env0 ''PATH'' = ?e1 ''PATH''"
    by (simp add: RunChild_env_def Let_def Setenv_def)
  have P2: "Getenv ?e1 ''PATH'' = '''' \<longrightarrow> RunChild_env cfg keys env0 ''PATH'' = Some default_PATH"
    using name_ok by (simp add: RunChild_env_def Let_def Setenv_def)
  have H1: "Getenv ?e1 ''HOME'' \<noteq> '''' \<longrightarrow> RunChild_env cfg keys env0 ''HOME'' = ?e1 ''HOME''"
    using path_get by (simp add: RunChild_env_def Let_def Setenv_other)
  have H2: "Getenv ?e1 ''HOME'' = '''' \<longrightarrow> RunChild_env cfg keys env0 ''HOME'' = Some ''/root''"
    using path_get name_ok by (simp add: RunChild_env_def Let_def Setenv_def)
  have PV: "Env cfg ''PATH'' = Some v \<and> v \<noteq> '''' \<and> NUL \<notin> set v \<longrightarrow>
              RunChild_env cfg keys env0 ''PATH'' = Some v"
  proof
    assume a: "Env cfg ''PATH'' = Some v \<and> v \<noteq> '''' \<and> NUL \<notin> set v"
    with assms have "''PATH'' \<in> set keys" by auto
    with a name_ok have e: "?e1 ''PATH'' = Some v" by (intro apply_Env_sets) simp_all
    then have "Getenv ?e1 ''PATH'' = v" by (simp add: Getenv_Some)
    with a P1 e show "RunChild_env cfg keys env0 ''PATH'' = Some v" by simp
  qed
  have HV: "Env cfg ''HOME'' = Some v \<and> v \<noteq> '''' \<and> NUL \<notin> set v \<longrightarrow>
              RunChild_env cfg keys env0 ''HOME'' = Some v"
  proof
    assume a: "Env cfg ''HOME'' = Some v \<and> v \<noteq> '''' \<and> NUL \<notin> set v"
    with assms have "''HOME'' \<in> set keys" by auto
    with a name_ok have e: "?e1 ''HOME'' = Some v" by (intro apply_Env_sets) simp_all
    then have "Getenv ?e1 ''HOME'' = v" by (simp add: Getenv_Some)
    with a H1 e show "RunChild_env cfg keys env0 ''HOME'' = Some v" by simp
  qed
  from PV HV P1 P2 H1 H2 show ?thesis by blast
qed

theorem C8_defaults_witness:
  "set [''PATH''] = dom (Env config_own_PATH) \<and>
   RunChild_env config_own_PATH [''PATH''] Map.empty ''PATH'' = Some ''/opt/bin'' \<and>
   RunChild_env config_own_PATH [''PATH''] Map.empty ''HOME'' = Some ''/root''"
proof -
  have d: "set [''PATH''] = dom (Env config_own_PATH)"
    by (simp add: config_own_PATH_def)
  have p: "Env config_own_PATH ''PATH'' = Some ''/opt/bin'' \<and> ''/opt/bin'' \<noteq> '''' \<and>
           NUL \<notin> set ''/opt/bin''"
    by (simp add: config_own_PATH_def NUL_def char_of_def)
  have h: "Getenv (apply_Env (Env config_own_PATH) [''PATH''] Map.empty) ''HOME'' = ''''"
    by (simp add: config_own_PATH_def Getenv_def Setenv_def)
  from C8_defaults_only_for_empty[OF d, of "''/opt/bin''" Map.empty] d p h
  show ?thesis by blast
qed

section \<open>C9: the pid outlives the process\<close>

text \<open>
  C9: neither \<open>Wait\<close> nor \<open>Stop\<close> changes the \<open>pid\<close> field. So after a successful
  \<open>Start\<close> that recorded a positive pid, once \<open>Wait\<close> has returned (or \<open>Stop\<close> has
  succeeded) the state is Stopped, \<open>PID\<close> still yields the pid of the spawned child,
  and \<open>Status\<close> of a manager holding the handle reports it as running.
\<close>

theorem C9_pid_survives:
  "(\<forall>r k'. Wait w k = Returns (r, k') \<longrightarrow> pid k' = pid k) \<and>
   (\<forall>r k'. Stop w k = Returns (r, k') \<longrightarrow> pid k' = pid k) \<and>
   (\<forall>k1 r k2. Start w1 k0 = Returns (None, k1) \<and> 0 < pid k1 \<and>
               (Wait w k1 = Returns (r, k2) \<or> Stop w k1 = Returns (None, k2)) \<longrightarrow>
               cmd_Start w1 = Some (pid k1) \<and> state k2 = StateStopped \<and>
               Kitten_PID k2 = pid k1 \<and>
               Status (m\<lparr>containers := (containers m)(name \<mapsto> k2)\<rparr>) name = Some ''running'')"
proof (intro conjI allI impI)
  fix r k' assume "Wait w k = Returns (r, k')"
  from Wait_frame[OF this] show "pid k' = pid k" by simp
next
  fix r k' assume "Stop w k = Returns (r, k')"
  from Stop_frame[OF this] show "pid k' = pid k" by simp
next
  fix k1 r k2
  assume a: "Start w1 k0 = Returns (None, k1) \<and> 0 < pid k1 \<and>
             (Wait w k1 = Returns (r, k2) \<or> Stop w k1 = Returns (None, k2))"
  then have st: "Start w1 k0 = Returns (None, k1)" by simp
  from Start_result[OF st] have s1: "cmd_Start w1 = Some (pid k1)" "cmd k1 \<noteq> None" by auto
  from a consider "Wait w k1 = Returns (r, k2)" | "Stop w k1 = Returns (None, k2)" by blast
  then have k2: "pid k2 = pid k1 \<and> state k2 = StateStopped"
  proof cases
    case 1
    from Wait_frame[OF 1] s1 show ?thesis by simp
  next
    case 2
    from Stop_frame[OF 2] show ?thesis by simp
  qed
  show "cmd_Start w1 = Some (pid k1)" by (rule s1)
  show "state k2 = StateStopped" using k2 by simp
  show "Kitten_PID k2 = pid k1" using k2 by (simp add: Kitten_PID_def)
  show "Status (m\<lparr>containers := (containers m)(name \<mapsto> k2)\<rparr>) name = Some ''running''"
    using k2 a by (simp add: Status_def Kitten_PID_def)
qed

text \<open>The echo container: started, waited for, and still reported as running.\<close>

theorem C9_pid_survives_witness:
  "Start world_ok kitten_echo = Returns (None, kitten_echo_running) \<and>
   Wait world_ok kitten_echo_running = Returns ((0, None), kitten_echo_stopped) \<and>
   state kitten_echo_stopped = StateStopped \<and> Kitten_PID kitten_echo_stopped = 4242 \<and>
   Status (manager_empty\<lparr>containers :=
             (containers manager_empty)(''echo'' \<mapsto> kitten_echo_stopped)\<rparr>) ''echo''
     = Some ''running''"
proof -
  have p: "pid kitten_echo_running = 4242" by (simp add: kitten_echo_running_def)
  have "Start world_ok kitten_echo = Returns (None, kitten_echo_running) \<and>
        0 < pid kitten_echo_running \<and>
        (Wait world_ok kitten_echo_running = Returns ((0, None), kitten_echo_stopped) \<or>
         Stop world_ok kitten_echo_running = Returns (None, kitten_echo_stopped))"
    using Start_echo Wait_echo p by simp
  with C9_pid_survives[of world_ok kitten_echo_running world_ok kitten_echo
         manager_empty "''echo''"]
  have "state kitten_echo_stopped = StateStopped \<and>
        Kitten_PID kitten_echo_stopped = pid kitten_echo_running \<and>
        Status (manager_empty\<lparr>containers :=
                  (containers manager_empty)(''echo'' \<mapsto> kitten_echo_stopped)\<rparr>) ''echo''
          = Some ''running''"
    by blast
  with Start_echo Wait_echo p show ?thesis by simp
qed

section \<open>C10: a subnet text that does not parse\<close>

text \<open>
  C10: when the subnet text does not parse as a CIDR, \<open>allocateIP\<close> yields the empty
  string and no error. \<open>Start\<close> on a Created handle with the Net namespace and that
  subnet, once the veth pair exists, records the empty string as the handle's container
  IP and in its network configuration whatever it returns, never returns the veth error
  on that account, and goes on: when every later step succeeds it spawns the child with
  that configuration and returns success in state Running.
\<close>

theorem C10_unparsable_subnet:
  assumes "ParseCIDR w s = None"
  shows "allocateIP w s = '''' \<and>
         (\<not> mutex k \<and> state k = StateCreated \<and> Net (Namespaces (config k)) \<and>
          Network (config k) = Some nc \<and> Subnet nc = s \<and>
          LinkAdd w (''veth'' @ shortID (Kitten.ID k)) (''vethc'' @ shortID (Kitten.ID k)) \<longrightarrow>
            (\<forall>r k'. Start w k = Returns (r, k') \<longrightarrow>
                      r \<noteq> Some VethCreateFailed \<and> containerIP k' = '''' \<and>
                      Network (config k') = Some (nc\<lparr>ContainerIP := ''''\<rparr>)) \<and>
            (Marshal_ok w \<and> stat w (RootFS (config k)) \<noteq> NotExist \<and>
             cmd_Start w = Some p \<and> moveVeth_ok w \<and> renameVeth_ok w \<and> linkUp_ok w \<and>
             configureHostVeth_ok w \<and> addrAdd_ok w \<and> routeAdd_ok w \<and>
             list_all (addPortForward_ok w) (PortMappings nc) \<longrightarrow>
               (\<exists>k'. Start w k = Returns (None, k') \<and> state k' = StateRunning \<and>
                     pid k' = p \<and> containerIP k' = '''' \<and>
                     map_option child_config (cmd k') =
                       Some ((config k)\<lparr>Network := Some (nc\<lparr>ContainerIP := ''''\<rparr>)\<rparr>))))"
proof (intro conjI allI impI)
  show a: "allocateIP w s = ''''" using assms by (simp add: allocateIP_def)
  assume h: "\<not> mutex k \<and> state k = StateCreated \<and> Net (Namespaces (config k)) \<and>
             Network (config k) = Some nc \<and> Subnet nc = s \<and>
             LinkAdd w (''veth'' @ shortID (Kitten.ID k)) (''vethc'' @ shortID (Kitten.ID k))"
  let ?k1 = "k\<lparr> mutex := True, vethHost := ''veth'' @ shortID (Kitten.ID k),
                 vethContainer := ''vethc'' @ shortID (Kitten.ID k), containerIP := '''',
                 config := (config k)\<lparr>Network := Some (nc\<lparr>ContainerIP := ''''\<rparr>)\<rparr> \<rparr>"
  have net: "Start_network w (k\<lparr>mutex := True\<rparr>) = Returns (None, ?k1)"
    using h a by (simp add: Start_network_def createVethPair_def Let_def)
  { fix r k'
    assume st: "Start w k = Returns (r, k')"
    have "r \<noteq> Some VethCreateFailed \<and> containerIP k' = '''' \<and>
          Network (config k') = Some (nc\<lparr>ContainerIP := ''''\<rparr>)"
    proof (cases "Marshal_ok w \<and> stat w (RootFS (config ?k1)) \<noteq> NotExist \<and> cmd_Start w \<noteq> None")
      case False
      with st h net show ?thesis
        by (auto simp: Start_def Let_def unlock_def cleanup_def split: if_splits option.splits)
    next
      case True
      then obtain q where q: "cmd_Start w = Some q" by auto
      let ?k2 = "?k1\<lparr> pid := q, cmd := Some \<lparr> child_config = config ?k1, Process = Some q \<rparr>,
                       state := StateRunning, startTime := time_Now w \<rparr>"
      from st h net True q have fin: "Start_finalize w ?k2 = Returns (r, k')"
        by (simp add: Start_def Let_def)
      have "mutex ?k2" by simp
      from Start_finalize_locked[OF this fin] show ?thesis by (simp add: unlock_def)
    qed }
  then show "\<And>r k'. Start w k = Returns (r, k') \<Longrightarrow> r \<noteq> Some VethCreateFailed"
    and "\<And>r k'. Start w k = Returns (r, k') \<Longrightarrow> containerIP k' = ''''"
    and "\<And>r k'. Start w k = Returns (r, k') \<Longrightarrow>
           Network (config k') = Some (nc\<lparr>ContainerIP := ''''\<rparr>)"
    by blast+
  assume ok: "Marshal_ok w \<and> stat w (RootFS (config k)) \<noteq> NotExist \<and>
              cmd_Start w = Some p \<and> moveVeth_ok w \<and> renameVeth_ok w \<and> linkUp_ok w \<and>
              configureHostVeth_ok w \<and> addrAdd_ok w \<and> routeAdd_ok w \<and>
              list_all (addPortForward_ok w) (PortMappings nc)"
  from h ok a
  have "Start w k = Returns (None,
           k\<lparr> vethHost := ''veth'' @ shortID (Kitten.ID k),
              vethContainer := ''vethc'' @ shortID (Kitten.ID k),
              containerIP := allocateIP w (Subnet nc),
              config := (config k)\<lparr>Network := Some (nc\<lparr>ContainerIP := allocateIP w (Subnet nc)\<rparr>)\<rparr>,
              pid := p,
              cmd := Some \<lparr> child_config =
                               (config k)\<lparr>Network := Some (nc\<lparr>ContainerIP := allocateIP w (Subnet nc)\<rparr>)\<rparr>,
                            Process = Some p \<rparr>,
              state := StateRunning, startTime := time_Now w \<rparr>)"
    by (intro Start_all_ok) simp_all
  with h a
  show "\<exists>k'. Start w k = Returns (None, k') \<and> state k' = StateRunning \<and>
             pid k' = p \<and> containerIP k' = '''' \<and>
             map_option child_config (cmd k') =
               Some ((config k)\<lparr>Network := Some (nc\<lparr>ContainerIP := ''''\<rparr>)\<rparr>)"
    by simp
qed

text \<open>The subnet text \<^verbatim>\<open>10.0.0.0\<close>, without a prefix length, on the host where all succeeds.\<close>

theorem C10_unparsable_subnet_witness:
  "ParseCIDR world_ok ''10.0.0.0'' = None \<and> allocateIP world_ok ''10.0.0.0'' = '''' \<and>
   (\<exists>k'. Start world_ok kitten_no_prefix = Returns (None, k') \<and>
         state k' = StateRunning \<and> pid k' = 4242 \<and> containerIP k' = '''')"
proof -
  let ?nc = "\<lparr> Mode = ''bridge'', BridgeName = ''kitten0'', ContainerIP = '''',
              GatewayIP = ''10.0.0.1'', Subnet = ''10.0.0.0'', PortMappings = [] \<rparr>"
  have pre: "\<not> mutex kitten_no_prefix \<and> state kitten_no_prefix = StateCreated \<and>
             Net (Namespaces (config kitten_no_prefix)) \<and>
             Network (config kitten_no_prefix) = Some ?nc \<and> Subnet ?nc = ''10.0.0.0'' \<and>
             LinkAdd world_ok (''veth'' @ shortID (Kitten.ID kitten_no_prefix))
               (''vethc'' @ shortID (Kitten.ID kitten_no_prefix))"
    by (simp add: kitten_no_prefix_simps kitten_no_prefix_ID shortID_generated LinkAdd_def
        IFNAMSIZ_def world_ok_simps)
  have ok: "Marshal_ok world_ok \<and>
            stat world_ok (RootFS (config kitten_no_prefix)) \<noteq> NotExist \<and>
            cmd_Start world_ok = Some 4242 \<and> moveVeth_ok world_ok \<and>
            renameVeth_ok world_ok \<and> linkUp_ok world_ok \<and> configureHostVeth_ok world_ok \<and>
            addrAdd_ok world_ok \<and> routeAdd_ok world_ok \<and>
            list_all (addPortForward_ok world_ok) (PortMappings ?nc)"
    by (simp add: kitten_no_prefix_simps world_ok_simps)
  from C10_unparsable_subnet[OF ParseCIDR_no_prefix, of world_ok kitten_no_prefix ?nc 4242]
       pre ok ParseCIDR_no_prefix
  show ?thesis by blast
qed

end
